theory Spec2Isabelle
  imports Main "HOL-Library.Product_Lexorder" "HOL-Library.AList"
begin

section \<open>Values of the standard library used by \<^verbatim>\<open>app/model/calendar.py\<close>\<close>

text \<open>
  A \<^verbatim>\<open>datetime.time\<close> is compared as the tuple (hour, minute, second, microsecond) and a
  \<^verbatim>\<open>datetime.date\<close> as the tuple (year, month, day); both are modelled as these tuples
  under the lexicographic order. Identifiers and titles are strings.
\<close>

type_synonym time = "nat \<times> nat \<times> nat \<times> nat"
type_synonym date = "nat \<times> nat \<times> nat"
type_synonym datetime = "date \<times> time"

definition time :: "nat \<Rightarrow> nat \<Rightarrow> time" where
  "time h m = (h, m, 0, 0)"

text \<open>
  \<^verbatim>\<open>(datetime.combine(date.today(), slot_time) + timedelta(minutes=15)).time()\<close>:
  a quarter of an hour later on the clock, wrapping at midnight; seconds and microseconds are kept.
\<close>

definition add_15_minutes :: "time \<Rightarrow> time" where
  "add_15_minutes t =
     (case t of (h, m, s, us) \<Rightarrow>
        (let total = h * 60 + m + 15 in ((total div 60) mod 24, total mod 60, s, us)))"

section \<open>Errors\<close>

text \<open>
  \<^verbatim>\<open>KeyError\<close> is what Python raises when a dictionary is indexed at an absent key; the
  other four are the failures named by the helpers imported from \<^verbatim>\<open>app.services.util\<close>.
\<close>

datatype error = ReminderNotFound | SlotNotAvailable | EventNotFound | DateLowerThanToday | KeyError

type_synonym 'a result = "error + 'a"

text \<open>
  Modelled from the spec: the helpers \<^verbatim>\<open>reminder_not_found_error\<close>,
  \<^verbatim>\<open>slot_not_available_error\<close>, \<^verbatim>\<open>event_not_found_error\<close> and
  \<^verbatim>\<open>date_lower_than_today_error\<close> of \<^verbatim>\<open>app.services.util\<close> are imported but their
  module is not part of the sources. The specification treats each as a call that fails with the
  error it is named after and aborts the operation in progress at once, with no clean-up.
  The state reached so far is kept, so every operation returns its outcome together with the state.
\<close>

definition reminder_not_found_error :: "'a result" where
  "reminder_not_found_error = Inl ReminderNotFound"

definition slot_not_available_error :: "'a result" where
  "slot_not_available_error = Inl SlotNotAvailable"

definition event_not_found_error :: "'a result" where
  "event_not_found_error = Inl EventNotFound"

definition date_lower_than_today_error :: "'a result" where
  "date_lower_than_today_error = Inl DateLowerThanToday"

section \<open>Reminder and Event\<close>

record reminder =
  date_time :: datetime
  type_ :: string

definition EMAIL :: string where
  "EMAIL = ''email''"

definition SYSTEM :: string where
  "SYSTEM = ''system''"

record event =
  title :: string
  description :: string
  date_ev :: date
  start_at :: time
  end_at :: time
  id :: string
  reminders :: "reminder list"

text \<open>
  The constructor call \<^verbatim>\<open>Event(title, description, date_, start_at, end_at, id)\<close>: the
  reminders default to a new empty list. Modelled from the spec: \<^verbatim>\<open>generate_unique_id\<close> of
  \<^verbatim>\<open>app.services.util\<close>, the default of the \<^verbatim>\<open>id\<close> field, is not part of the sources;
  the identifier it produces is an argument of the operations that create an event.
\<close>

definition Event :: "string \<Rightarrow> string \<Rightarrow> date \<Rightarrow> time \<Rightarrow> time \<Rightarrow> string \<Rightarrow> event" where
  "Event t d dt s e i =
     \<lparr>title = t, description = d, date_ev = dt, start_at = s, end_at = e, id = i, reminders = []\<rparr>"

definition Event_add_reminder :: "datetime \<Rightarrow> string \<Rightarrow> event \<Rightarrow> event" where
  "Event_add_reminder dt ty ev =
     ev\<lparr>reminders := reminders ev @ [\<lparr>date_time = dt, type_ = ty\<rparr>]\<rparr>"

text \<open>\<^verbatim>\<open>del xs[n]\<close> for an index inside the list.\<close>

fun del_at :: "nat \<Rightarrow> 'a list \<Rightarrow> 'a list" where
  "del_at n [] = []"
| "del_at 0 (x # xs) = xs"
| "del_at (Suc n) (x # xs) = x # del_at n xs"

definition Event_delete_reminder :: "int \<Rightarrow> event \<Rightarrow> unit result \<times> event" where
  "Event_delete_reminder reminder_index ev =
     (if 0 \<le> reminder_index \<and> reminder_index < int (length (reminders ev))
      then (Inr (), ev\<lparr>reminders := del_at (nat reminder_index) (reminders ev)\<rparr>)
      else (reminder_not_found_error, ev))"

section \<open>Day\<close>

text \<open>
  The slots of a day are a dictionary from time to an optional event id. A dictionary keeps its
  keys in insertion order and the loops of \<^verbatim>\<open>Day\<close> run over it in that order, so it is an
  association list. A loop \<^verbatim>\<open>for slot in self.slots\<close> that reads and writes
  \<^verbatim>\<open>self.slots[slot]\<close> visits each entry once and touches the value of that entry only.
\<close>

type_synonym slots = "(time \<times> string option) list"

record day =
  date_day :: date
  slots :: slots

function init_slots_loop :: "time \<Rightarrow> slots \<Rightarrow> slots" where
  "init_slots_loop slot_time sl =
     (if slot_time < time 23 45
      then init_slots_loop (add_15_minutes slot_time) (AList.update slot_time None sl)
      else sl)"
  by pat_completeness auto
termination
proof (relation "measure (\<lambda>(t, sl). case t of (h, m, s, us) \<Rightarrow>
                    if m < 60 then 1440 - (h * 60 + m) else 1441)")
  show "wf (measure (\<lambda>(t, sl). case t of (h, m, s, us) \<Rightarrow>
                    if m < 60 then 1440 - (h * 60 + m) else 1441))"
    by simp
next
  fix slot_time :: time and sl :: slots
  assume lt: "slot_time < time 23 45"
  obtain h m s us where t: "slot_time = (h, m, s, us)"
    by (cases slot_time) auto
  define total where "total = h * 60 + m + 15"
  from lt t have hm: "h < 23 \<or> (h = 23 \<and> m < 45)"
    by (auto simp: time_def)
  have next_t: "add_15_minutes (h, m, s, us) = ((total div 60) mod 24, total mod 60, s, us)"
    by (simp add: add_15_minutes_def Let_def total_def)
  have m': "total mod 60 < 60"
    by simp
  have "(if total mod 60 < 60 then 1440 - ((total div 60) mod 24 * 60 + total mod 60) else 1441)
        < (if m < 60 then 1440 - (h * 60 + m) else (1441::nat))"
  proof (cases "m < 60")
    case True
    with hm have small: "total < 1440"
      by (auto simp: total_def)
    then have "total div 60 < 24"
      by simp
    then have "(total div 60) mod 24 * 60 + total mod 60 = total"
      by simp
    with True small m' show ?thesis
      by (simp add: total_def)
  next
    case False
    with m' show ?thesis
      by simp
  qed
  then show "((add_15_minutes slot_time, AList.update slot_time None sl), (slot_time, sl))
        \<in> measure (\<lambda>(t, sl). case t of (h, m, s, us) \<Rightarrow>
                    if m < 60 then 1440 - (h * 60 + m) else 1441)"
    by (simp add: next_t t)
qed

definition Day :: "date \<Rightarrow> day" where
  "Day d = \<lparr>date_day = d, slots = init_slots_loop (time 0 0) []\<rparr>"

declare init_slots_loop.simps [simp del]

text \<open>
  \<^verbatim>\<open>Day.add_event\<close>: the loop of the method over the entries, in order. The call of
  \<^verbatim>\<open>slot_not_available_error\<close> leaves the loop with the entries written so far.
\<close>

fun add_event_slots :: "string \<Rightarrow> time \<Rightarrow> time \<Rightarrow> slots \<Rightarrow> unit result \<times> slots" where
  "add_event_slots event_id s e [] = (Inr (), [])"
| "add_event_slots event_id s e ((slot, v) # rest) =
     (if s \<le> slot \<and> slot < e then
        (if v \<noteq> None then (slot_not_available_error, (slot, v) # rest)
         else (case add_event_slots event_id s e rest of
                 (r, rest') \<Rightarrow> (r, (slot, Some event_id) # rest')))
      else (case add_event_slots event_id s e rest of
              (r, rest') \<Rightarrow> (r, (slot, v) # rest')))"

definition Day_add_event :: "string \<Rightarrow> time \<Rightarrow> time \<Rightarrow> day \<Rightarrow> unit result \<times> day" where
  "Day_add_event event_id s e d =
     (case add_event_slots event_id s e (slots d) of (r, sl) \<Rightarrow> (r, d\<lparr>slots := sl\<rparr>))"

text \<open>
  \<^verbatim>\<open>Day.delete_event\<close>: the loop carries the flag \<^verbatim>\<open>deleted\<close>; the error is raised after
  the loop, when the flag is still false.
\<close>

fun delete_event_slots :: "string \<Rightarrow> bool \<Rightarrow> slots \<Rightarrow> bool \<times> slots" where
  "delete_event_slots event_id deleted [] = (deleted, [])"
| "delete_event_slots event_id deleted ((slot, saved_id) # rest) =
     (if saved_id = Some event_id then
        (case delete_event_slots event_id True rest of
           (deleted', rest') \<Rightarrow> (deleted', (slot, None) # rest'))
      else (case delete_event_slots event_id deleted rest of
              (deleted', rest') \<Rightarrow> (deleted', (slot, saved_id) # rest')))"

definition Day_delete_event :: "string \<Rightarrow> day \<Rightarrow> unit result \<times> day" where
  "Day_delete_event event_id d =
     (case delete_event_slots event_id False (slots d) of
        (deleted, sl) \<Rightarrow>
          (if \<not> deleted then (event_not_found_error, d\<lparr>slots := sl\<rparr>)
           else (Inr (), d\<lparr>slots := sl\<rparr>)))"

text \<open>
  \<^verbatim>\<open>Day.update_event\<close>: a first loop frees the slots of the event, a second one books the
  range. The second loop tests \<^verbatim>\<open>if self.slots[slot]\<close>, the truth value of the entry:
  \<^verbatim>\<open>None\<close> and the empty string are both false.
\<close>

definition truthy :: "string option \<Rightarrow> bool" where
  "truthy v = (case v of None \<Rightarrow> False | Some i \<Rightarrow> i \<noteq> [])"

fun clear_event_slots :: "string \<Rightarrow> slots \<Rightarrow> slots" where
  "clear_event_slots event_id [] = []"
| "clear_event_slots event_id ((slot, v) # rest) =
     (if v = Some event_id then (slot, None) # clear_event_slots event_id rest
      else (slot, v) # clear_event_slots event_id rest)"

fun update_event_slots :: "string \<Rightarrow> time \<Rightarrow> time \<Rightarrow> slots \<Rightarrow> unit result \<times> slots" where
  "update_event_slots event_id s e [] = (Inr (), [])"
| "update_event_slots event_id s e ((slot, v) # rest) =
     (if s \<le> slot \<and> slot < e then
        (if truthy v then (slot_not_available_error, (slot, v) # rest)
         else (case update_event_slots event_id s e rest of
                 (r, rest') \<Rightarrow> (r, (slot, Some event_id) # rest')))
      else (case update_event_slots event_id s e rest of
              (r, rest') \<Rightarrow> (r, (slot, v) # rest')))"

definition Day_update_event :: "string \<Rightarrow> time \<Rightarrow> time \<Rightarrow> day \<Rightarrow> unit result \<times> day" where
  "Day_update_event event_id s e d =
     (case update_event_slots event_id s e (clear_event_slots event_id (slots d)) of
        (r, sl) \<Rightarrow> (r, d\<lparr>slots := sl\<rparr>))"

text \<open>\<^verbatim>\<open>event_id in day.slots.values()\<close>\<close>

definition in_slot_values :: "string \<Rightarrow> day \<Rightarrow> bool" where
  "in_slot_values event_id d = (Some event_id \<in> set (map snd (slots d)))"

section \<open>Calendar\<close>

text \<open>
  The days are a dictionary in insertion order, which decides which day
  \<^verbatim>\<open>Calendar.delete_event\<close> reaches first: an association list, read with \<^const>\<open>map_of\<close> and
  written with \<^const>\<open>AList.update\<close> (a present key keeps its place, a new key goes to the end).
  Only membership and lookup of the events matter here: a map.
\<close>

record calendar =
  days :: "(date \<times> day) list"
  events :: "string \<rightharpoonup> event"

definition Calendar :: calendar where
  "Calendar = \<lparr>days = [], events = Map.empty\<rparr>"

text \<open>\<^verbatim>\<open>if date_ not in self.days: self.days[date_] = Day(date_)\<close>\<close>

definition ensure_day :: "date \<Rightarrow> (date \<times> day) list \<Rightarrow> (date \<times> day) list" where
  "ensure_day d ds = (if map_of ds d = None then AList.update d (Day d) ds else ds)"

text \<open>
  \<^verbatim>\<open>Calendar.add_event\<close>. The current date \<^verbatim>\<open>datetime.now().date()\<close> and the identifier
  that \<^verbatim>\<open>generate_unique_id\<close> gives the new event are arguments.
\<close>

definition Calendar_add_event ::
  "string \<Rightarrow> string \<Rightarrow> date \<Rightarrow> time \<Rightarrow> time \<Rightarrow> date \<Rightarrow> string \<Rightarrow> calendar
     \<Rightarrow> string result \<times> calendar" where
  "Calendar_add_event ttl descr dt s e today new_id c =
     (if dt < today then (date_lower_than_today_error, c)
      else
        (let ds = ensure_day dt (days c);
             ev = Event ttl descr dt s e new_id
         in case map_of ds dt of
              None \<Rightarrow> (Inl KeyError, c\<lparr>days := ds\<rparr>)
            | Some d \<Rightarrow>
                (case Day_add_event (id ev) s e d of
                   (Inl err, d') \<Rightarrow> (Inl err, c\<lparr>days := AList.update dt d' ds\<rparr>)
                 | (Inr u, d') \<Rightarrow>
                     (Inr (id ev),
                      c\<lparr>days := AList.update dt d' ds, events := (events c)(id ev \<mapsto> ev)\<rparr>))))"

definition Calendar_add_reminder ::
  "string \<Rightarrow> datetime \<Rightarrow> string \<Rightarrow> calendar \<Rightarrow> unit result \<times> calendar" where
  "Calendar_add_reminder event_id dtm ty c =
     (case events c event_id of
        None \<Rightarrow> (event_not_found_error, c)
      | Some ev \<Rightarrow> (Inr (), c\<lparr>events := (events c)(event_id \<mapsto> Event_add_reminder dtm ty ev)\<rparr>))"

definition Calendar_find_available_slots :: "date \<Rightarrow> calendar \<Rightarrow> time list" where
  "Calendar_find_available_slots dt c =
     (case map_of (days c) dt of
        Some d \<Rightarrow> map fst (filter (\<lambda>(slot, ev). ev = None) (slots d))
      | None \<Rightarrow> [])"

text \<open>
  The loop of \<^verbatim>\<open>Calendar.delete_event\<close> over the days: the first day that holds the
  identifier is cleared and the loop is left (\<^verbatim>\<open>break\<close>).
\<close>

fun delete_event_days :: "string \<Rightarrow> (date \<times> day) list \<Rightarrow> unit result \<times> (date \<times> day) list" where
  "delete_event_days event_id [] = (Inr (), [])"
| "delete_event_days event_id ((dt, d) # rest) =
     (if in_slot_values event_id d then
        (case Day_delete_event event_id d of (r, d') \<Rightarrow> (r, (dt, d') # rest))
      else (case delete_event_days event_id rest of (r, rest') \<Rightarrow> (r, (dt, d) # rest')))"

definition Calendar_delete_event :: "string \<Rightarrow> calendar \<Rightarrow> unit result \<times> calendar" where
  "Calendar_delete_event event_id c =
     (if events c event_id = None then (event_not_found_error, c)
      else
        (case delete_event_days event_id (days c) of
           (r, ds) \<Rightarrow> (r, c\<lparr>days := ds, events := (events c)(event_id := None)\<rparr>)))"

text \<open>
  The closing loop of \<^verbatim>\<open>Calendar.update_event\<close> when the date is unchanged: every day that
  holds \<^verbatim>\<open>event_id\<close> has the slots of \<^verbatim>\<open>event.id\<close> deleted and booked again.
\<close>

fun update_event_days ::
  "string \<Rightarrow> string \<Rightarrow> time \<Rightarrow> time \<Rightarrow> (date \<times> day) list \<Rightarrow> unit result \<times> (date \<times> day) list" where
  "update_event_days event_id ev_id s e [] = (Inr (), [])"
| "update_event_days event_id ev_id s e ((dt, d) # rest) =
     (if in_slot_values event_id d then
        (case Day_delete_event ev_id d of
           (Inl err, d1) \<Rightarrow> (Inl err, (dt, d1) # rest)
         | (Inr u, d1) \<Rightarrow>
             (case Day_update_event ev_id s e d1 of
                (Inl err, d2) \<Rightarrow> (Inl err, (dt, d2) # rest)
              | (Inr u', d2) \<Rightarrow>
                  (case update_event_days event_id ev_id s e rest of
                     (r, rest') \<Rightarrow> (r, (dt, d2) # rest'))))
      else (case update_event_days event_id ev_id s e rest of
              (r, rest') \<Rightarrow> (r, (dt, d) # rest')))"

definition Calendar_update_event ::
  "string \<Rightarrow> string \<Rightarrow> string \<Rightarrow> date \<Rightarrow> time \<Rightarrow> time \<Rightarrow> calendar \<Rightarrow> unit result \<times> calendar" where
  "Calendar_update_event event_id ttl descr dt s e c =
     (case events c event_id of
        None \<Rightarrow> (event_not_found_error, c)
      | Some ev \<Rightarrow>
          (if date_ev ev \<noteq> dt then
             (case Calendar_delete_event event_id c of
                (Inl err, c1) \<Rightarrow> (Inl err, c1)
              | (Inr u, c1) \<Rightarrow>
                  (let c2 = c1\<lparr>events := (events c1)(event_id \<mapsto> Event ttl descr dt s e event_id)\<rparr>;
                       ds = ensure_day dt (days c2)
                   in case map_of ds dt of
                        None \<Rightarrow> (Inl KeyError, c2\<lparr>days := ds\<rparr>)
                      | Some d \<Rightarrow>
                          (case Day_add_event event_id s e d of
                             (r, d') \<Rightarrow> (r, c2\<lparr>days := AList.update dt d' ds\<rparr>))))
           else
             (let ev' = ev\<lparr>title := ttl, description := descr, date_ev := dt,
                           start_at := s, end_at := e\<rparr>;
                  c1 = c\<lparr>events := (events c)(event_id \<mapsto> ev')\<rparr>
              in case update_event_days event_id (id ev') s e (days c1) of
                   (r, ds) \<Rightarrow> (r, c1\<lparr>days := ds\<rparr>))))"

definition Calendar_delete_reminder :: "string \<Rightarrow> int \<Rightarrow> calendar \<Rightarrow> unit result \<times> calendar" where
  "Calendar_delete_reminder event_id reminder_index c =
     (case events c event_id of
        None \<Rightarrow> (event_not_found_error, c)
      | Some ev \<Rightarrow>
          (case Event_delete_reminder reminder_index ev of
             (r, ev') \<Rightarrow> (r, c\<lparr>events := (events c)(event_id \<mapsto> ev')\<rparr>)))"

definition Calendar_list_reminders :: "string \<Rightarrow> calendar \<Rightarrow> reminder list result" where
  "Calendar_list_reminders event_id c =
     (case events c event_id of
        None \<Rightarrow> event_not_found_error
      | Some ev \<Rightarrow> Inr (reminders ev))"

section \<open>Notions used to state the properties\<close>

text \<open>The \<open>n\<close>-th quarter of an hour of the day: 00:00, 00:15, 00:30, ...\<close>

definition slot_key :: "nat \<Rightarrow> time" where
  "slot_key n = time (n div 4) (15 * (n mod 4))"

text \<open>A slot time lies in the range of a booking: \<^verbatim>\<open>start_at <= slot < end_at\<close>.\<close>

definition in_range :: "time \<Rightarrow> time \<Rightarrow> time \<Rightarrow> bool" where
  "in_range s e slot = (s \<le> slot \<and> slot < e)"

text \<open>An entry of the slots is in the range and already holds an event.\<close>

definition occupied_in :: "time \<Rightarrow> time \<Rightarrow> time \<times> string option \<Rightarrow> bool" where
  "occupied_in s e x = (in_range s e (fst x) \<and> snd x \<noteq> None)"

text \<open>An entry after the booking reached it: in the range it holds the event, else it is as before.\<close>

definition book :: "string \<Rightarrow> time \<Rightarrow> time \<Rightarrow> time \<times> string option \<Rightarrow> time \<times> string option" where
  "book event_id s e x = (if in_range s e (fst x) then (fst x, Some event_id) else x)"

text \<open>The event ids held by the entries of a slot dictionary.\<close>

definition slot_ids :: "slots \<Rightarrow> string set" where
  "slot_ids sl = {i. Some i \<in> set (map snd sl)}"

text \<open>The bookings of a list of days: the pairs of a date and an event id held by a slot of its day.\<close>

definition bookings :: "(date \<times> day) list \<Rightarrow> (date \<times> string) set" where
  "bookings ds = {(dt, i). \<exists>d. (dt, d) \<in> set ds \<and> in_slot_values i d}"

text \<open>The slot keys of the day of a date, none when the calendar has no day for it.\<close>

definition day_keys :: "calendar \<Rightarrow> date \<Rightarrow> time list" where
  "day_keys c dt = (case map_of (days c) dt of None \<Rightarrow> [] | Some d \<Rightarrow> map fst (slots d))"

text \<open>The value of a slot of the day of a date: \<^verbatim>\<open>self.days[dt].slots[slot]\<close>.\<close>

definition slot_value :: "calendar \<Rightarrow> date \<Rightarrow> time \<Rightarrow> string option" where
  "slot_value c dt slot =
     (case map_of (days c) dt of
        None \<Rightarrow> None
      | Some d \<Rightarrow> (case map_of (slots d) slot of None \<Rightarrow> None | Some v \<Rightarrow> v))"

text \<open>
  Every slot of every day is free or holds an event id that is a key of the events.
\<close>

definition slots_registered :: "calendar \<Rightarrow> bool" where
  "slots_registered c =
     list_all (\<lambda>(dt, d).
       list_all (\<lambda>(slot, v). case v of None \<Rightarrow> True | Some i \<Rightarrow> events c i \<noteq> None) (slots d))
       (days c)"

text \<open>
  The same, but for the ids in \<open>failed\<close>: every slot is free, or holds a key of the events, or
  holds an id of \<open>failed\<close>.
\<close>

definition registered_or_failed :: "string set \<Rightarrow> calendar \<Rightarrow> bool" where
  "registered_or_failed failed c =
     list_all (\<lambda>(dt, d).
       list_all (\<lambda>(slot, v). case v of None \<Rightarrow> True
                              | Some i \<Rightarrow> events c i \<noteq> None \<or> i \<in> failed) (slots d))
       (days c)"

text \<open>
  The calendars that the public operations reach from the empty calendar, whatever the arguments
  and whatever the outcome of each call. Two sets are carried along: \<open>issued\<close>, the identifiers
  that \<^verbatim>\<open>generate_unique_id\<close> has produced so far, and \<open>failed\<close>, those among them whose
  \<^verbatim>\<open>add_event\<close> failed with \<^verbatim>\<open>SlotNotAvailable\<close>. The identifier of a new event is one that
  was never issued before (the specification: a globally unique identifier); a call that fails on
  the date test has not yet built its event, so it issues none.
\<close>

inductive reachable :: "string set \<Rightarrow> string set \<Rightarrow> calendar \<Rightarrow> bool" where
  initial: "reachable {} {} Calendar"
| add_event:
    "reachable issued failed c \<Longrightarrow> new_id \<notin> issued \<Longrightarrow>
     Calendar_add_event ttl descr dt s e today new_id c = (r, c') \<Longrightarrow>
     reachable (if r = Inl DateLowerThanToday then issued else insert new_id issued)
       (if r = Inl SlotNotAvailable then insert new_id failed else failed) c'"
| add_reminder:
    "reachable issued failed c \<Longrightarrow> Calendar_add_reminder event_id dtm ty c = (r, c') \<Longrightarrow>
     reachable issued failed c'"
| update_event:
    "reachable issued failed c \<Longrightarrow>
     Calendar_update_event event_id ttl descr dt s e c = (r, c') \<Longrightarrow>
     reachable issued failed c'"
| delete_event:
    "reachable issued failed c \<Longrightarrow> Calendar_delete_event event_id c = (r, c') \<Longrightarrow>
     reachable issued failed c'"
| delete_reminder:
    "reachable issued failed c \<Longrightarrow> Calendar_delete_reminder event_id reminder_index c = (r, c') \<Longrightarrow>
     reachable issued failed c'"

text \<open>
  What holds of every reachable calendar: the registered ids were issued and none of them failed;
  the dates of the days are distinct; an event is registered under its own id; and an id held by
  a slot either failed or is registered with the date of that slot's day.
\<close>

definition consistent :: "string set \<Rightarrow> string set \<Rightarrow> calendar \<Rightarrow> bool" where
  "consistent issued failed c \<longleftrightarrow>
     dom (events c) \<subseteq> issued \<and> failed \<subseteq> issued \<and> dom (events c) \<inter> failed = {} \<and>
     distinct (map fst (days c)) \<and>
     (\<forall>k ev. events c k = Some ev \<longrightarrow> id ev = k) \<and>
     (\<forall>dt i. (dt, i) \<in> bookings (days c) \<longrightarrow>
        i \<in> failed \<or> (\<exists>ev. events c i = Some ev \<and> date_ev ev = dt))"

text \<open>
  Between two calendars with the same days and slot keys in the same order: every slot that holds
  the event \<open>i\<close> in the first still holds it in the second.
\<close>

definition still_holds :: "string \<Rightarrow> calendar \<Rightarrow> calendar \<Rightarrow> bool" where
  "still_holds i c c' =
     list_all2 (\<lambda>x y. fst x = fst y \<and>
       list_all2 (\<lambda>a b. fst a = fst b \<and> (snd a = Some i \<longrightarrow> snd b = Some i))
         (slots (snd x)) (slots (snd y)))
       (days c) (days c')"

text \<open>
  Example calendars: one event from 10:00 to 10:30 added to the empty calendar; then a reminder
  given to that event; then, instead, a second event from 09:45 to 10:15 whose booking fails.
\<close>

definition calendar_one :: calendar where
  "calendar_one =
     snd (Calendar_add_event ''T1'' ''D1'' (2025, 1, 1) (time 10 0) (time 10 30) (2025, 1, 1)
            ''id1'' Calendar)"

definition calendar_reminder :: calendar where
  "calendar_reminder =
     snd (Calendar_add_reminder ''id1'' ((2025, 1, 1), time 9 0) EMAIL calendar_one)"

definition calendar_failed :: calendar where
  "calendar_failed =
     snd (Calendar_add_event ''T2'' ''D2'' (2025, 1, 1) (time 9 45) (time 10 15) (2025, 1, 1)
            ''id2'' calendar_one)"

text \<open>A fourth example: the event of \<^const>\<open>calendar_one\<close> moved to the next day, 11:00 to 12:00.\<close>

definition calendar_moved :: calendar where
  "calendar_moved =
     snd (Calendar_update_event ''id1'' ''T'' ''D'' (2025, 1, 2) (time 11 0) (time 12 0)
            calendar_one)"

section \<open>A new day\<close>

lemma update_fresh: "k \<notin> fst ` set al \<Longrightarrow> AList.update k v al = al @ [(k, v)]"
  by (induction al) auto

lemma slot_key_inj: "slot_key a = slot_key b \<Longrightarrow> a = b"
proof -
  assume "slot_key a = slot_key b"
  then have "a div 4 = b div 4" and "15 * (a mod 4) = 15 * (b mod 4)"
    by (simp_all add: slot_key_def time_def)
  then have "a div 4 = b div 4" and "a mod 4 = b mod 4"
    by simp_all
  then show "a = b"
    by (metis div_mult_mod_eq)
qed

lemma slot_key_less: "slot_key n < time 23 45 \<longleftrightarrow> n < 95"
proof -
  have r: "n mod 4 < 4" by simp
  have n: "n = 4 * (n div 4) + n mod 4" by simp
  show ?thesis
  proof (cases "n div 4 < 23")
    case True
    then have "n < 95" using n r by linarith
    with True show ?thesis by (simp add: slot_key_def time_def)
  next
    case False
    then have ge: "23 \<le> n div 4" by simp
    show ?thesis
    proof (cases "n div 4 = 23")
      case True
      have "15 * (n mod 4) < 45 \<longleftrightarrow> n mod 4 < 3" by linarith
      moreover have "n < 95 \<longleftrightarrow> n mod 4 < 3" using n True by linarith
      ultimately show ?thesis using True by (simp add: slot_key_def time_def)
    next
      case F: False
      with ge have "24 \<le> n div 4" by simp
      then have "\<not> n < 95" using n by linarith
      with F ge show ?thesis by (simp add: slot_key_def time_def)
    qed
  qed
qed

lemma add_15_slot_key: "n < 95 \<Longrightarrow> add_15_minutes (slot_key n) = slot_key (Suc n)"
proof -
  assume n: "n < 95"
  have eq: "n div 4 * 60 + 15 * (n mod 4) + 15 = 15 * Suc n"
  proof -
    have "15 * Suc n = 15 * Suc (4 * (n div 4) + n mod 4)" by simp
    also have "\<dots> = n div 4 * 60 + 15 * (n mod 4) + 15" by (simp only: mult_Suc_right distrib_left)
    finally show ?thesis by simp
  qed
  have d: "(15 * Suc n) div 60 = Suc n div 4"
    using div_mult2_eq [of "15 * Suc n" 15 4] by simp
  have m: "(15 * Suc n) mod 60 = 15 * (Suc n mod 4)"
    using mult_mod_right [of 15 "Suc n" 4] by simp
  from n have "Suc n div 4 < 24" by simp
  then have w: "(Suc n div 4) mod 24 = Suc n div 4" by simp
  have "add_15_minutes (slot_key n)
        = (((n div 4 * 60 + 15 * (n mod 4) + 15) div 60) mod 24,
           (n div 4 * 60 + 15 * (n mod 4) + 15) mod 60, 0, 0)"
    by (simp add: add_15_minutes_def slot_key_def time_def Let_def)
  also have "\<dots> = (Suc n div 4, 15 * (Suc n mod 4), 0, 0)"
    unfolding eq d m w ..
  finally show ?thesis
    by (simp add: slot_key_def time_def)
qed

lemma init_slots_loop_from:
  "n \<le> N \<Longrightarrow> N = 95 \<Longrightarrow>
   init_slots_loop (slot_key n) (map (\<lambda>k. (slot_key k, None)) [0..<n])
     = map (\<lambda>k. (slot_key k, None)) [0..<N]"
proof (induction "N - n" arbitrary: n)
  case 0
  then have "n = 95" by simp
  then have "\<not> slot_key n < time 23 45"
    by (simp add: slot_key_less)
  then show ?case
    using 0 by (subst init_slots_loop.simps) simp
next
  case (Suc d)
  then have n: "n < 95" by simp
  have fresh: "slot_key n \<notin> fst ` set (map (\<lambda>k. (slot_key k, None :: string option)) [0..<n])"
    by (auto dest: slot_key_inj)
  have step: "AList.update (slot_key n) None (map (\<lambda>k. (slot_key k, None :: string option)) [0..<n])
              = map (\<lambda>k. (slot_key k, None)) [0..<Suc n]"
    using update_fresh [OF fresh] by simp
  have lt: "slot_key n < time 23 45"
    using n by (simp add: slot_key_less)
  have "init_slots_loop (slot_key n) (map (\<lambda>k. (slot_key k, None)) [0..<n])
        = init_slots_loop (slot_key (Suc n)) (map (\<lambda>k. (slot_key k, None)) [0..<Suc n])"
    by (subst init_slots_loop.simps) (simp only: lt if_True add_15_slot_key [OF n] step)
  also have "\<dots> = map (\<lambda>k. (slot_key k, None)) [0..<N]"
    using Suc.hyps(1) [of "Suc n"] Suc.hyps(2) Suc.prems by simp
  finally show ?case .
qed

lemma Day_slots: "slots (Day d) = map (\<lambda>k. (slot_key k, None)) [0..<95]"
  using init_slots_loop_from [of 0 95] by (simp add: Day_def slot_key_def del: upt_rec_numeral)

lemma Day_keys: "map fst (slots (Day d)) = map slot_key [0..<95]"
  by (simp add: Day_slots comp_def del: upt_rec_numeral)

lemma quarter_keys:
  "slot_key ` {0..<95} = {t. \<exists>h m. t = time h m \<and> m \<in> {0, 15, 30, 45} \<and> t < time 23 45}"
proof (intro equalityI subsetI)
  fix t assume "t \<in> slot_key ` {0..<95}"
  then obtain n where n: "n < 95" "t = slot_key n" by auto
  have "n mod 4 = 0 \<or> n mod 4 = 1 \<or> n mod 4 = 2 \<or> n mod 4 = 3" by linarith
  then have "15 * (n mod 4) \<in> {0, 15, 30, 45}" by auto
  moreover have "t < time 23 45" using n by (simp add: slot_key_less)
  ultimately show "t \<in> {t. \<exists>h m. t = time h m \<and> m \<in> {0, 15, 30, 45} \<and> t < time 23 45}"
    using n(2) unfolding slot_key_def by blast
next
  fix t assume "t \<in> {t. \<exists>h m. t = time h m \<and> m \<in> {0, 15, 30, 45} \<and> t < time 23 45}"
  then obtain h m where t: "t = time h m" and m: "m \<in> {0, 15, 30, 45}" and lt: "t < time 23 45"
    by blast
  have key: "slot_key (4 * h + m div 15) = time h m"
    using m by (auto simp: slot_key_def)
  with lt t have "4 * h + m div 15 < 95"
    using slot_key_less [of "4 * h + m div 15"] by simp
  with key t show "t \<in> slot_key ` {0..<95}"
    by (metis atLeastLessThan_iff image_eqI zero_le)
qed

text \<open>
  C2. Whatever the date, a new \<^verbatim>\<open>Day\<close> has exactly 95 slots; their keys are, in order,
  00:00, 00:15, ..., 23:30, that is every time of day with minute 0, 15, 30 or 45 that is strictly
  below 23:45, each once; every slot is free.
\<close>

theorem C2_new_day_slots:
  "length (slots (Day d)) = 95
   \<and> map fst (slots (Day d)) = map slot_key [0..<95]
   \<and> slot_key 0 = time 0 0 \<and> slot_key 1 = time 0 15 \<and> slot_key 94 = time 23 30
   \<and> set (map fst (slots (Day d)))
       = {t. \<exists>h m. t = time h m \<and> m \<in> {0, 15, 30, 45} \<and> t < time 23 45}
   \<and> distinct (map fst (slots (Day d)))
   \<and> map snd (slots (Day d)) = replicate 95 None"
proof -
  have len: "length (slots (Day d)) = 95"
    by (simp add: Day_slots del: upt_rec_numeral)
  have keys: "set (map fst (slots (Day d)))
       = {t. \<exists>h m. t = time h m \<and> m \<in> {0, 15, 30, 45} \<and> t < time 23 45}"
    unfolding Day_keys using quarter_keys by (simp del: upt_rec_numeral)
  have dist: "distinct (map fst (slots (Day d)))"
    unfolding Day_keys by (simp add: distinct_map inj_on_def del: upt_rec_numeral) (blast dest: slot_key_inj)
  have vals: "map snd (slots (Day d)) = replicate 95 None"
    by (simp add: Day_slots comp_def map_replicate_const del: upt_rec_numeral)
  have ex: "slot_key 0 = time 0 0 \<and> slot_key 1 = time 0 15 \<and> slot_key 94 = time 23 30"
    by (simp add: slot_key_def)
  from len Day_keys keys dist vals ex show ?thesis
    by blast
qed

section \<open>Booking the slots of a day\<close>

lemma add_event_slots_prefix:
  "list_all (\<lambda>x. \<not> occupied_in s e x) pre \<Longrightarrow>
   add_event_slots event_id s e (pre @ rest) =
     (fst (add_event_slots event_id s e rest),
      map (book event_id s e) pre @ snd (add_event_slots event_id s e rest))"
  by (induction pre) (auto simp: occupied_in_def in_range_def book_def split: prod.splits)

lemma add_event_slots_free:
  "list_all (\<lambda>x. \<not> occupied_in s e x) sl \<Longrightarrow>
   add_event_slots event_id s e sl = (Inr (), map (book event_id s e) sl)"
  using add_event_slots_prefix [of s e sl event_id "[]"] by simp

lemma add_event_slots_occupied:
  "occupied_in s e x \<Longrightarrow>
   add_event_slots event_id s e (x # post) = (Inl SlotNotAvailable, x # post)"
  by (cases x) (auto simp: occupied_in_def in_range_def slot_not_available_error_def)

text \<open>
  C3. \<^verbatim>\<open>Day.add_event(event_id, start, end)\<close> goes through the slots in the order of the
  dictionary. When no slot of the range is occupied, the call succeeds and every slot of the range
  holds \<^verbatim>\<open>event_id\<close>. Otherwise, with \<open>x\<close> the first occupied slot of the range, \<open>pre\<close> the
  slots before it and \<open>post\<close> those after it, the call fails with \<^verbatim>\<open>SlotNotAvailable\<close>, the
  slots of the range in \<open>pre\<close> (all free) hold \<^verbatim>\<open>event_id\<close> and are not rolled back, and \<open>x\<close>
  and \<open>post\<close> are as before.
\<close>

theorem C3_add_event_no_rollback:
  "(list_all (\<lambda>x. \<not> occupied_in s e x) (slots d) \<longrightarrow>
      Day_add_event event_id s e d = (Inr (), d\<lparr>slots := map (book event_id s e) (slots d)\<rparr>))
   \<and> (slots d = pre @ x # post \<and> list_all (\<lambda>x. \<not> occupied_in s e x) pre \<and> occupied_in s e x \<longrightarrow>
      Day_add_event event_id s e d =
        (Inl SlotNotAvailable, d\<lparr>slots := map (book event_id s e) pre @ x # post\<rparr>))"
  by (simp add: Day_add_event_def add_event_slots_free add_event_slots_prefix
        add_event_slots_occupied)

theorem C3_add_event_no_rollback_witness:
  "Day_add_event ''b'' (time 9 0) (time 10 0)
     \<lparr>date_day = (2025, 1, 1),
      slots = [(time 9 0, None), (time 9 15, None), (time 9 30, Some ''a''), (time 9 45, None)]\<rparr>
   = (Inl SlotNotAvailable,
      \<lparr>date_day = (2025, 1, 1),
       slots = [(time 9 0, Some ''b''), (time 9 15, Some ''b''), (time 9 30, Some ''a''),
                (time 9 45, None)]\<rparr>)
   \<and> Day_add_event ''b'' (time 9 0) (time 9 30)
     \<lparr>date_day = (2025, 1, 1),
      slots = [(time 9 0, None), (time 9 15, None), (time 9 30, Some ''a''), (time 9 45, None)]\<rparr>
   = (Inr (),
      \<lparr>date_day = (2025, 1, 1),
       slots = [(time 9 0, Some ''b''), (time 9 15, Some ''b''), (time 9 30, Some ''a''),
                (time 9 45, None)]\<rparr>)"
  using
    C3_add_event_no_rollback [of "time 9 0" "time 10 0"
      "\<lparr>date_day = (2025, 1, 1),
        slots = [(time 9 0, None), (time 9 15, None), (time 9 30, Some ''a''), (time 9 45, None)]\<rparr>"
      "''b''" "[(time 9 0, None), (time 9 15, None)]" "(time 9 30, Some ''a'')"
      "[(time 9 45, None)]"]
    C3_add_event_no_rollback [of "time 9 0" "time 9 30"
      "\<lparr>date_day = (2025, 1, 1),
        slots = [(time 9 0, None), (time 9 15, None), (time 9 30, Some ''a''), (time 9 45, None)]\<rparr>"
      "''b''" "[]" "(time 9 0, None)" "[]"]
  by (simp add: occupied_in_def in_range_def book_def time_def)

lemma add_event_slots_none:
  "\<forall>slot \<in> set (map fst sl). \<not> in_range s e slot \<Longrightarrow>
   add_event_slots event_id s e sl = (Inr (), sl)"
  by (induction sl) (auto simp: in_range_def)

lemma Day_key_le: "slot \<in> set (map fst (slots (Day d))) \<Longrightarrow> slot \<le> time 23 30"
proof -
  assume "slot \<in> set (map fst (slots (Day d)))"
  then obtain n where n: "n < 95" "slot = slot_key n"
    unfolding Day_keys by (auto simp del: upt_rec_numeral)
  have "n = 4 * (n div 4) + n mod 4"
    by simp
  with n(1) have "n div 4 < 23 \<or> (n div 4 = 23 \<and> n mod 4 < 3)"
    by linarith
  then show ?thesis
    unfolding n(2) slot_key_def time_def by auto
qed

text \<open>
  The ranges the specification gives as examples hold no slot: one that ends at 00:00 or before,
  one that ends where it starts or before, and, for the keys of a new day (no method changes the
  keys of a day), one that starts after 23:30.
\<close>

lemma empty_range_examples:
  "e \<le> time 0 0 \<Longrightarrow> \<not> in_range s e slot"
  "e \<le> s \<Longrightarrow> \<not> in_range s e slot"
  "time 23 30 < s \<Longrightarrow> slot \<in> set (map fst (slots (Day d))) \<Longrightarrow> \<not> in_range s e slot"
proof -
  show "e \<le> time 0 0 \<Longrightarrow> \<not> in_range s e slot"
    by (cases slot; cases e) (auto simp: in_range_def time_def)
  show "e \<le> s \<Longrightarrow> \<not> in_range s e slot"
    by (auto simp: in_range_def)
  show "time 23 30 < s \<Longrightarrow> slot \<in> set (map fst (slots (Day d))) \<Longrightarrow> \<not> in_range s e slot"
    using Day_key_le [of slot d] by (auto simp: in_range_def)
qed

text \<open>
  C4. When no slot key of the day lies in the range \<^verbatim>\<open>start <= slot < end\<close>,
  \<^verbatim>\<open>Day.add_event\<close> raises no error and leaves the day, and so every slot, as it was.
\<close>

theorem C4_add_event_empty_range:
  assumes "\<forall>slot \<in> set (map fst (slots d)). \<not> in_range s e slot"
  shows "Day_add_event event_id s e d = (Inr (), d)"
  using add_event_slots_none [OF assms] by (simp add: Day_add_event_def)

theorem C4_add_event_empty_range_witness:
  "Day_add_event ''a'' (time 10 0) (time 9 0) (Day (2025, 1, 1)) = (Inr (), Day (2025, 1, 1))"
  by (rule C4_add_event_empty_range) (simp add: empty_range_examples(2) time_def)

section \<open>Adding an event on a past date\<close>

text \<open>
  C7. \<^verbatim>\<open>Calendar.add_event\<close> with a date strictly before the current date fails with
  \<^verbatim>\<open>DateLowerThanToday\<close>, whatever the other arguments, and the calendar (its days and its
  events) is as before.
\<close>

theorem C7_add_event_past_date:
  "dt < today \<Longrightarrow>
   Calendar_add_event ttl descr dt s e today new_id c = (Inl DateLowerThanToday, c)"
  by (simp add: Calendar_add_event_def date_lower_than_today_error_def)

theorem C7_add_event_past_date_witness:
  "(2025, 1, 1) < ((2025, 1, 2) :: date)
   \<and> Calendar_add_event ''T'' ''D'' (2025, 1, 1) (time 10 0) (time 10 30) (2025, 1, 2) ''id1''
        Calendar = (Inl DateLowerThanToday, Calendar)"
  using C7_add_event_past_date [of "(2025, 1, 1)" "(2025, 1, 2)" "''T''" "''D''" "time 10 0"
      "time 10 30" "''id1''" Calendar]
  by simp

section \<open>Deleting a reminder\<close>

lemma del_at_take_drop: "del_at n xs = take n xs @ drop (Suc n) xs"
  by (induction n xs rule: del_at.induct) simp_all

lemma Calendar_delete_reminder_eq:
  "events c event_id = Some ev \<Longrightarrow>
   Calendar_delete_reminder event_id i c =
     (fst (Event_delete_reminder i ev),
      c\<lparr>events := (events c)(event_id \<mapsto> snd (Event_delete_reminder i ev))\<rparr>)"
  by (simp add: Calendar_delete_reminder_def split: prod.splits)

text \<open>
  C8. For an event with reminders \<open>r\<close> and an integer \<open>i\<close>: when \<open>0 \<le> i < length r\<close>,
  \<^verbatim>\<open>delete_reminder(i)\<close> succeeds and the reminders become \<open>r\<close> without its element at
  position \<open>i\<close> (the elements before it, then those after it), one fewer than before; otherwise
  it fails with \<^verbatim>\<open>ReminderNotFound\<close> and the event is as before.
\<close>

theorem C8_delete_reminder:
  "(0 \<le> i \<and> i < int (length (reminders ev)) \<longrightarrow>
      Event_delete_reminder i ev =
        (Inr (), ev\<lparr>reminders := take (nat i) (reminders ev) @ drop (Suc (nat i)) (reminders ev)\<rparr>)
      \<and> length (reminders (snd (Event_delete_reminder i ev))) + 1 = length (reminders ev))
   \<and> (\<not> (0 \<le> i \<and> i < int (length (reminders ev))) \<longrightarrow>
      Event_delete_reminder i ev = (Inl ReminderNotFound, ev))"
  by (auto simp: Event_delete_reminder_def del_at_take_drop reminder_not_found_error_def)

theorem C8_delete_reminder_witness:
  "Event_delete_reminder 1
     ((Event ''T'' ''D'' (2025, 1, 1) (time 10 0) (time 10 30) ''id1'')
        \<lparr>reminders := [\<lparr>date_time = ((2025, 1, 1), time 9 0), type_ = EMAIL\<rparr>,
                       \<lparr>date_time = ((2025, 1, 1), time 9 30), type_ = SYSTEM\<rparr>,
                       \<lparr>date_time = ((2025, 1, 1), time 9 45), type_ = EMAIL\<rparr>]\<rparr>)
   = (Inr (),
      (Event ''T'' ''D'' (2025, 1, 1) (time 10 0) (time 10 30) ''id1'')
        \<lparr>reminders := [\<lparr>date_time = ((2025, 1, 1), time 9 0), type_ = EMAIL\<rparr>,
                       \<lparr>date_time = ((2025, 1, 1), time 9 45), type_ = EMAIL\<rparr>]\<rparr>)
   \<and> Event_delete_reminder 3
     ((Event ''T'' ''D'' (2025, 1, 1) (time 10 0) (time 10 30) ''id1'')
        \<lparr>reminders := [\<lparr>date_time = ((2025, 1, 1), time 9 0), type_ = EMAIL\<rparr>,
                       \<lparr>date_time = ((2025, 1, 1), time 9 30), type_ = SYSTEM\<rparr>,
                       \<lparr>date_time = ((2025, 1, 1), time 9 45), type_ = EMAIL\<rparr>]\<rparr>)
   = (Inl ReminderNotFound,
      (Event ''T'' ''D'' (2025, 1, 1) (time 10 0) (time 10 30) ''id1'')
        \<lparr>reminders := [\<lparr>date_time = ((2025, 1, 1), time 9 0), type_ = EMAIL\<rparr>,
                       \<lparr>date_time = ((2025, 1, 1), time 9 30), type_ = SYSTEM\<rparr>,
                       \<lparr>date_time = ((2025, 1, 1), time 9 45), type_ = EMAIL\<rparr>]\<rparr>)
   \<and> Event_delete_reminder (- 1)
     ((Event ''T'' ''D'' (2025, 1, 1) (time 10 0) (time 10 30) ''id1'')
        \<lparr>reminders := [\<lparr>date_time = ((2025, 1, 1), time 9 0), type_ = EMAIL\<rparr>]\<rparr>)
   = (Inl ReminderNotFound,
      (Event ''T'' ''D'' (2025, 1, 1) (time 10 0) (time 10 30) ''id1'')
        \<lparr>reminders := [\<lparr>date_time = ((2025, 1, 1), time 9 0), type_ = EMAIL\<rparr>]\<rparr>)"
  using
    C8_delete_reminder [of 1 "(Event ''T'' ''D'' (2025, 1, 1) (time 10 0) (time 10 30) ''id1'')
        \<lparr>reminders := [\<lparr>date_time = ((2025, 1, 1), time 9 0), type_ = EMAIL\<rparr>,
                       \<lparr>date_time = ((2025, 1, 1), time 9 30), type_ = SYSTEM\<rparr>,
                       \<lparr>date_time = ((2025, 1, 1), time 9 45), type_ = EMAIL\<rparr>]\<rparr>"]
    C8_delete_reminder [of 3 "(Event ''T'' ''D'' (2025, 1, 1) (time 10 0) (time 10 30) ''id1'')
        \<lparr>reminders := [\<lparr>date_time = ((2025, 1, 1), time 9 0), type_ = EMAIL\<rparr>,
                       \<lparr>date_time = ((2025, 1, 1), time 9 30), type_ = SYSTEM\<rparr>,
                       \<lparr>date_time = ((2025, 1, 1), time 9 45), type_ = EMAIL\<rparr>]\<rparr>"]
    C8_delete_reminder [of "- 1" "(Event ''T'' ''D'' (2025, 1, 1) (time 10 0) (time 10 30) ''id1'')
        \<lparr>reminders := [\<lparr>date_time = ((2025, 1, 1), time 9 0), type_ = EMAIL\<rparr>]\<rparr>"]
  by (simp add: Event_def)

section \<open>What the loops over the slots do\<close>

lemma slot_ids_Nil [simp]: "slot_ids [] = {}"
  by (simp add: slot_ids_def)

lemma slot_ids_Cons [simp]:
  "slot_ids ((k, v) # sl) = (case v of None \<Rightarrow> {} | Some i \<Rightarrow> {i}) \<union> slot_ids sl"
  by (auto simp: slot_ids_def split: option.splits)

lemma in_slot_values_iff: "in_slot_values i d \<longleftrightarrow> i \<in> slot_ids (slots d)"
  by (simp add: in_slot_values_def slot_ids_def)

lemma add_event_slots_keys: "map fst (snd (add_event_slots i s e sl)) = map fst sl"
  by (induction sl) (auto split: prod.splits)

lemma add_event_slots_ids:
  "slot_ids (snd (add_event_slots i s e sl)) \<subseteq> insert i (slot_ids sl)"
  by (induction sl) (auto split: prod.splits option.splits if_splits)

lemma add_event_slots_outcome:
  "fst (add_event_slots i s e sl) =
     (if list_all (\<lambda>x. \<not> occupied_in s e x) sl then Inr () else Inl SlotNotAvailable)"
  by (induction sl)
     (auto simp: occupied_in_def in_range_def slot_not_available_error_def split: prod.splits)

lemma add_event_slots_keeps:
  "list_all2 (\<lambda>a b. fst a = fst b \<and> (snd a \<noteq> None \<longrightarrow> snd b = snd a))
     sl (snd (add_event_slots i s e sl))"
  by (induction sl) (auto split: prod.splits simp: list.rel_refl)

lemma delete_event_slots_eq:
  "delete_event_slots i b sl = (b \<or> i \<in> slot_ids sl, clear_event_slots i sl)"
  by (induction sl arbitrary: b) (auto split: prod.splits option.splits)

lemma clear_event_slots_keys: "map fst (clear_event_slots i sl) = map fst sl"
  by (induction sl) auto

lemma clear_event_slots_mem:
  "j \<in> slot_ids (clear_event_slots i sl) \<longleftrightarrow> j \<noteq> i \<and> j \<in> slot_ids sl"
proof (induction sl)
  case Nil
  show ?case by simp
next
  case (Cons x sl)
  obtain k v where x: "x = (k, v)" by (cases x)
  show ?case
    using Cons by (cases v) (simp_all add: x, blast)
qed

lemma clear_event_slots_absent: "i \<notin> slot_ids sl \<Longrightarrow> clear_event_slots i sl = sl"
  by (induction sl) (auto split: option.splits)

lemma clear_event_slots_book:
  "i \<notin> slot_ids sl \<Longrightarrow> list_all (\<lambda>x. \<not> occupied_in s e x) sl \<Longrightarrow>
   clear_event_slots i (map (book i s e) sl) = sl"
  by (induction sl) (auto simp: book_def occupied_in_def split: option.splits)

lemma update_event_slots_keys: "map fst (snd (update_event_slots i s e sl)) = map fst sl"
  by (induction sl) (auto split: prod.splits)

lemma update_event_slots_ids:
  "slot_ids (snd (update_event_slots i s e sl)) \<subseteq> insert i (slot_ids sl)"
  by (induction sl) (auto split: prod.splits option.splits if_splits)

lemma update_event_slots_outcome:
  "fst (update_event_slots i s e sl) = Inr () \<or> fst (update_event_slots i s e sl) = Inl SlotNotAvailable"
  by (induction sl) (auto simp: slot_not_available_error_def split: prod.splits if_splits)

section \<open>What the methods of a day do\<close>

lemma Day_add_event_ids:
  "Day_add_event i s e d = (r, d') \<Longrightarrow> in_slot_values j d' \<Longrightarrow> j = i \<or> in_slot_values j d"
  using add_event_slots_ids [of i s e "slots d"]
  by (auto simp: Day_add_event_def in_slot_values_iff split: prod.splits)

lemma Day_add_event_outcome:
  "Day_add_event i s e d = (r, d') \<Longrightarrow> r = Inr () \<or> r = Inl SlotNotAvailable"
  using add_event_slots_outcome [of i s e "slots d"]
  by (auto simp: Day_add_event_def split: prod.splits if_splits)

lemma Day_add_event_ok:
  "Day_add_event i s e d = (Inr u, d') \<Longrightarrow>
   list_all (\<lambda>x. \<not> occupied_in s e x) (slots d) \<and> d' = d\<lparr>slots := map (book i s e) (slots d)\<rparr>"
  using add_event_slots_outcome [of i s e "slots d"] add_event_slots_free [of s e "slots d" i]
  by (auto simp: Day_add_event_def split: prod.splits if_splits)

lemma Day_add_event_occupied:
  "x \<in> set (slots d) \<Longrightarrow> occupied_in s e x \<Longrightarrow> fst (Day_add_event i s e d) = Inl SlotNotAvailable"
  using add_event_slots_outcome [of i s e "slots d"]
  by (auto simp: Day_add_event_def list_all_iff split: prod.splits)

lemma Day_delete_event_eq:
  "Day_delete_event i d =
     (if in_slot_values i d then Inr () else Inl EventNotFound,
      d\<lparr>slots := clear_event_slots i (slots d)\<rparr>)"
  by (simp add: Day_delete_event_def delete_event_slots_eq in_slot_values_iff
        event_not_found_error_def)

lemma Day_delete_event_ids:
  "Day_delete_event i d = (r, d') \<Longrightarrow> in_slot_values j d' \<longleftrightarrow> j \<noteq> i \<and> in_slot_values j d"
  by (auto simp: Day_delete_event_eq in_slot_values_iff clear_event_slots_mem)

lemma Day_update_event_ids:
  "Day_update_event i s e d = (r, d') \<Longrightarrow> in_slot_values j d' \<Longrightarrow> j = i \<or> in_slot_values j d"
  using update_event_slots_ids [of i s e "clear_event_slots i (slots d)"]
  by (auto simp: Day_update_event_def in_slot_values_iff clear_event_slots_mem
           split: prod.splits)

lemma Day_update_event_outcome:
  "Day_update_event i s e d = (r, d') \<Longrightarrow> r = Inr () \<or> r = Inl SlotNotAvailable"
  using update_event_slots_outcome [of i s e "clear_event_slots i (slots d)"]
  by (auto simp: Day_update_event_def split: prod.splits)

lemma Day_no_bookings: "\<not> in_slot_values i (Day dt)"
  by (auto simp: in_slot_values_def Day_slots comp_def simp del: upt_rec_numeral)

section \<open>What the loops over the days do\<close>

lemma bookings_Nil [simp]: "bookings [] = {}"
  by (simp add: bookings_def)

lemma bookings_Cons:
  "bookings ((dt, d) # ds) = {(dt', i). dt' = dt \<and> in_slot_values i d} \<union> bookings ds"
  by (auto simp: bookings_def)

lemma bookings_append: "bookings (ds @ ds') = bookings ds \<union> bookings ds'"
  by (auto simp: bookings_def)

lemma bookings_key: "(dt, i) \<in> bookings ds \<Longrightarrow> dt \<in> fst ` set ds"
  by (force simp: bookings_def)

lemma bookings_update:
  "bookings (AList.update dt d' ds) \<subseteq> bookings ds \<union> {(dt', i). dt' = dt \<and> in_slot_values i d'}"
  by (induction ds) (auto simp: bookings_Cons)

lemma bookings_map_of:
  "distinct (map fst ds) \<Longrightarrow> (dt, i) \<in> bookings ds \<longleftrightarrow> (\<exists>d. map_of ds dt = Some d \<and> in_slot_values i d)"
  by (auto simp: bookings_def)

lemma ensure_day_present: "map_of (ensure_day dt ds) dt \<noteq> None"
  by (simp add: ensure_day_def update_conv')

lemma ensure_day_distinct: "distinct (map fst ds) \<Longrightarrow> distinct (map fst (ensure_day dt ds))"
  by (simp add: ensure_day_def distinct_update)

lemma ensure_day_bookings: "bookings (ensure_day dt ds) = bookings ds"
proof (cases "map_of ds dt")
  case None
  then have "dt \<notin> fst ` set ds"
    by (simp add: map_of_eq_None_iff)
  then have "AList.update dt (Day dt) ds = ds @ [(dt, Day dt)]"
    by (rule update_fresh)
  with None show ?thesis
    by (simp add: ensure_day_def bookings_append bookings_Cons Day_no_bookings)
next
  case (Some d)
  then show ?thesis by (simp add: ensure_day_def)
qed

lemma delete_event_days_keys: "map fst (snd (delete_event_days i ds)) = map fst ds"
  by (induction ds) (auto split: prod.splits)

lemma delete_event_days_ok: "fst (delete_event_days i ds) = Inr ()"
  by (induction ds) (auto simp: Day_delete_event_eq split: prod.splits)

lemma delete_event_days_sub: "bookings (snd (delete_event_days i ds)) \<subseteq> bookings ds"
proof (induction ds)
  case Nil
  show ?case by simp
next
  case (Cons x ds)
  obtain dt d where x: "x = (dt, d)" by (cases x)
  show ?case
  proof (cases "in_slot_values i d")
    case True
    then show ?thesis
      by (auto simp: x bookings_Cons Day_delete_event_eq in_slot_values_iff clear_event_slots_mem)
  next
    case False
    with Cons show ?thesis
      by (auto simp: x bookings_Cons split: prod.splits)
  qed
qed

lemma delete_event_days_gone:
  "distinct (map fst ds) \<Longrightarrow> \<forall>dt'. (dt', i) \<in> bookings ds \<longrightarrow> dt' = k \<Longrightarrow>
   (dt'', i) \<notin> bookings (snd (delete_event_days i ds))"
proof (induction ds)
  case Nil
  show ?case by simp
next
  case (Cons x ds)
  obtain dt d where x: "x = (dt, d)" by (cases x)
  show ?case
  proof (cases "in_slot_values i d")
    case True
    then have "(dt, i) \<in> bookings (x # ds)"
      by (simp add: x bookings_Cons)
    with Cons.prems(2) have k: "dt = k"
      by blast
    have "(dt'', i) \<notin> bookings ds"
    proof
      assume b: "(dt'', i) \<in> bookings ds"
      then have "(dt'', i) \<in> bookings (x # ds)"
        by (simp add: x bookings_Cons)
      with Cons.prems(2) have "dt'' = k" by blast
      with b k have "dt \<in> fst ` set ds" using bookings_key by blast
      with Cons.prems(1) show False by (simp add: x)
    qed
    with True show ?thesis
      by (auto simp: x bookings_Cons Day_delete_event_eq in_slot_values_iff clear_event_slots_mem)
  next
    case False
    have "\<forall>dt'. (dt', i) \<in> bookings ds \<longrightarrow> dt' = k"
      using Cons.prems(2) by (simp add: x bookings_Cons)
    with Cons have "(dt'', i) \<notin> bookings (snd (delete_event_days i ds))"
      by (simp add: x)
    with False show ?thesis
      by (auto simp: x bookings_Cons split: prod.splits)
  qed
qed

lemma delete_event_days_fresh:
  "\<forall>dt'. (dt', i) \<notin> bookings ds \<Longrightarrow> delete_event_days i ds = (Inr (), ds)"
  by (induction ds) (auto simp: bookings_Cons)

lemma delete_event_days_update:
  "\<forall>dt'. (dt', i) \<notin> bookings ds \<Longrightarrow> map_of ds dt = Some d \<Longrightarrow> in_slot_values i d' \<Longrightarrow>
   delete_event_days i (AList.update dt d' ds) =
     (Inr (), AList.update dt (d'\<lparr>slots := clear_event_slots i (slots d')\<rparr>) ds)"
  by (induction ds) (auto simp: bookings_Cons Day_delete_event_eq)

lemma update_event_days_keys: "map fst (snd (update_event_days i j s e ds)) = map fst ds"
  by (induction ds) (auto split: prod.splits sum.splits)

lemma update_event_days_sub: "bookings (snd (update_event_days i i s e ds)) \<subseteq> bookings ds"
proof (induction ds)
  case Nil
  show ?case by simp
next
  case (Cons x ds)
  obtain dt d where x: "x = (dt, d)" by (cases x)
  show ?case
  proof (cases "in_slot_values i d")
    case True
    obtain r2 d2 where upd: "Day_update_event i s e (d\<lparr>slots := clear_event_slots i (slots d)\<rparr>) = (r2, d2)"
      by (cases "Day_update_event i s e (d\<lparr>slots := clear_event_slots i (slots d)\<rparr>)")
    have d2: "in_slot_values j d2 \<Longrightarrow> in_slot_values j d" for j
      using Day_update_event_ids [OF upd, of j] True
      by (auto simp: in_slot_values_iff clear_event_slots_mem)
    show ?thesis
      using True upd d2 Cons
      by (cases r2) (auto simp: x bookings_Cons Day_delete_event_eq split: prod.splits)
  next
    case False
    with Cons show ?thesis
      by (auto simp: x bookings_Cons split: prod.splits)
  qed
qed

section \<open>What the methods of the calendar do\<close>

lemma Calendar_add_event_eq:
  assumes "\<not> dt < today" and "map_of (ensure_day dt (days c)) dt = Some d"
  shows "Calendar_add_event ttl descr dt s e today new_id c =
     (case fst (Day_add_event new_id s e d) of
        Inl err \<Rightarrow>
          (Inl err,
           c\<lparr>days := AList.update dt (snd (Day_add_event new_id s e d)) (ensure_day dt (days c))\<rparr>)
      | Inr u \<Rightarrow>
          (Inr new_id,
           c\<lparr>days := AList.update dt (snd (Day_add_event new_id s e d)) (ensure_day dt (days c)),
             events := (events c)(new_id \<mapsto> Event ttl descr dt s e new_id)\<rparr>))"
  using assms
  by (simp add: Calendar_add_event_def Let_def Event_def split: prod.splits sum.splits)

lemma Calendar_delete_event_eq:
  "Calendar_delete_event i c =
     (if events c i = None then (Inl EventNotFound, c)
      else (Inr (), c\<lparr>days := snd (delete_event_days i (days c)),
                      events := (events c)(i := None)\<rparr>))"
  using delete_event_days_ok [of i "days c"]
  by (auto simp: Calendar_delete_event_def event_not_found_error_def split: prod.splits)

lemma Calendar_update_event_new_date:
  assumes "events c i = Some ev" and "date_ev ev \<noteq> dt"
    and "map_of (ensure_day dt (snd (delete_event_days i (days c)))) dt = Some d"
  shows "Calendar_update_event i ttl descr dt s e c =
     (fst (Day_add_event i s e d),
      c\<lparr>days := AList.update dt (snd (Day_add_event i s e d))
                  (ensure_day dt (snd (delete_event_days i (days c)))),
        events := (events c)(i \<mapsto> Event ttl descr dt s e i)\<rparr>)"
  using assms
  by (simp add: Calendar_update_event_def Calendar_delete_event_eq Let_def split: prod.splits)

lemma Calendar_update_event_same_date:
  assumes "events c i = Some ev" and "date_ev ev = dt"
  shows "Calendar_update_event i ttl descr dt s e c =
     (fst (update_event_days i (id ev) s e (days c)),
      c\<lparr>events := (events c)(i \<mapsto> ev\<lparr>title := ttl, description := descr, date_ev := dt,
                                         start_at := s, end_at := e\<rparr>),
        days := snd (update_event_days i (id ev) s e (days c))\<rparr>)"
  using assms
  by (simp add: Calendar_update_event_def Let_def split: prod.splits)

section \<open>Helpers on the methods of days and calendars\<close>

lemma Day_add_event_new_day: "Day_add_event i s e (Day dt) = (Inr (), (Day dt)\<lparr>slots := map (book i s e) (slots (Day dt))\<rparr>)"
proof -
  have "list_all (\<lambda>x. \<not> occupied_in s e x) (slots (Day dt))"
    by (simp add: Day_slots list_all_iff occupied_in_def del: upt_rec_numeral) 
  then show ?thesis
    by (simp add: Day_add_event_def add_event_slots_free)
qed

lemma map_of_book:
  "map_of (map (book i s e) sl) slot =
     (case map_of sl slot of None \<Rightarrow> None
      | Some v \<Rightarrow> Some (if in_range s e slot then Some i else v))"
  by (induction sl) (auto simp: book_def)

lemma list_all2_update:
  assumes "map_of ds dt = Some d" and "P d d'" and "\<And>x. P x x"
  shows "list_all2 (\<lambda>x y. fst x = fst y \<and> P (snd x) (snd y)) ds (AList.update dt d' ds)"
  using assms(1,2)
proof (induction ds)
  case Nil
  then show ?case by simp
next
  case (Cons x ds)
  show ?case
  proof (cases "fst x = dt")
    case True
    with Cons.prems show ?thesis
      by (cases x) (auto simp: assms(3) list.rel_refl)
  next
    case False
    with Cons show ?thesis
      by (cases x) (auto simp: assms(3))
  qed
qed

lemma book_fst: "fst (book i s e x) = fst x"
  by (simp add: book_def)

lemma Day_add_event_slots:
  "slots (snd (Day_add_event i s e d)) = snd (add_event_slots i s e (slots d))"
  by (simp add: Day_add_event_def split: prod.splits)

lemma ensure_day_id: "map_of ds dt = Some d \<Longrightarrow> ensure_day dt ds = ds"
  by (simp add: ensure_day_def)

section \<open>Updating an event and its reminders\<close>

text \<open>
  C10. For a calendar that holds an event under \<open>event_id\<close>: a successful
  \<^verbatim>\<open>Calendar.update_event\<close> that changes the date registers a new \<^verbatim>\<open>Event\<close> object under
  the id, whose reminders are empty, so the reminders of the event are lost; an update that keeps
  the date changes the other fields of the event in place and its reminders are as before.
\<close>

theorem C10_update_event_reminders:
  assumes "events c event_id = Some ev"
  shows "(date_ev ev \<noteq> dt \<and> fst (Calendar_update_event event_id ttl descr dt s e c) = Inr () \<longrightarrow>
            events (snd (Calendar_update_event event_id ttl descr dt s e c)) event_id
              = Some (Event ttl descr dt s e event_id)
            \<and> reminders (Event ttl descr dt s e event_id) = [])
       \<and> (date_ev ev = dt \<longrightarrow>
            events (snd (Calendar_update_event event_id ttl descr dt s e c)) event_id
              = Some (ev\<lparr>title := ttl, description := descr, date_ev := dt,
                         start_at := s, end_at := e\<rparr>)
            \<and> reminders (ev\<lparr>title := ttl, description := descr, date_ev := dt,
                           start_at := s, end_at := e\<rparr>) = reminders ev)"
proof (cases "date_ev ev = dt")
  case True
  with assms show ?thesis
    by (simp add: Calendar_update_event_same_date)
next
  case False
  obtain d where "map_of (ensure_day dt (snd (delete_event_days event_id (days c)))) dt = Some d"
    using ensure_day_present [of dt "snd (delete_event_days event_id (days c))"] by auto
  with assms False show ?thesis
    by (simp add: Calendar_update_event_new_date Event_def)
qed

section \<open>Two events on the same slots\<close>

text \<open>
  C6, as amended. After a first event with id \<open>id1\<close> was added with success on the date \<open>dt\<close>
  for the range from \<open>s1\<close> to \<open>e1\<close>, a second \<^verbatim>\<open>Calendar.add_event\<close> on \<open>dt\<close>, made when \<open>dt\<close>
  is not before the current date, whose range from \<open>s2\<close> to \<open>e2\<close> shares a slot of the day with
  the first range fails with \<^verbatim>\<open>SlotNotAvailable\<close>, and every slot that held \<open>id1\<close> still holds
  it. The condition on the current date is needed: \<^verbatim>\<open>Calendar.add_event\<close> compares the date with
  the current date before it reads any slot.
\<close>

theorem C6_overlapping_add_fails:
  assumes first: "Calendar_add_event ttl1 descr1 dt s1 e1 today1 id1 c0 = (Inr r1, c1)"
    and slot: "slot \<in> set (day_keys c1 dt)" "in_range s1 e1 slot" "in_range s2 e2 slot"
    and today2: "\<not> dt < today2"
  shows "fst (Calendar_add_event ttl2 descr2 dt s2 e2 today2 id2 c1) = Inl SlotNotAvailable
       \<and> still_holds id1 c1 (snd (Calendar_add_event ttl2 descr2 dt s2 e2 today2 id2 c1))"
proof -
  have today1: "\<not> dt < today1"
    using first by (auto simp: Calendar_add_event_def date_lower_than_today_error_def)
  obtain d0 where d0: "map_of (ensure_day dt (days c0)) dt = Some d0"
    using ensure_day_present [of dt "days c0"] by auto
  obtain r0 d1 where add1: "Day_add_event id1 s1 e1 d0 = (r0, d1)"
    by (cases "Day_add_event id1 s1 e1 d0")
  have eq1: "(Inr r1, c1) =
     (case r0 of
        Inl err \<Rightarrow> (Inl err, c0\<lparr>days := AList.update dt d1 (ensure_day dt (days c0))\<rparr>)
      | Inr u \<Rightarrow>
          (Inr id1,
           c0\<lparr>days := AList.update dt d1 (ensure_day dt (days c0)),
              events := (events c0)(id1 \<mapsto> Event ttl1 descr1 dt s1 e1 id1)\<rparr>))"
    using first Calendar_add_event_eq [OF today1 d0, of ttl1 descr1 s1 e1 id1]
    unfolding add1 fst_conv snd_conv by simp
  have r0: "r0 = Inr ()"
    using eq1 by (cases r0) simp_all
  have c1: "days c1 = AList.update dt d1 (ensure_day dt (days c0))"
    using eq1 r0 by simp
  have d1: "d1 = d0\<lparr>slots := map (book id1 s1 e1) (slots d0)\<rparr>"
    using add1 r0 Day_add_event_ok [of id1 s1 e1 d0 "()" d1] by simp
  have day1: "map_of (days c1) dt = Some d1"
    by (simp add: c1 update_conv')
  have "day_keys c1 dt = map fst (slots d0)"
    by (simp add: day_keys_def day1 d1 comp_def book_fst)
  then have "set (day_keys c1 dt) = fst ` set (slots d0)"
    by simp
  with slot(1) obtain v where v: "(slot, v) \<in> set (slots d0)"
    by auto
  have "book id1 s1 e1 (slot, v) = (slot, Some id1)"
    using slot(2) by (simp add: book_def)
  with v have held: "(slot, Some id1) \<in> set (slots d1)"
    unfolding d1 by force
  have occ: "occupied_in s2 e2 (slot, Some id1)"
    using slot(3) by (simp add: occupied_in_def)
  have fails: "fst (Day_add_event id2 s2 e2 d1) = Inl SlotNotAvailable"
    using held occ by (rule Day_add_event_occupied)
  have ens: "ensure_day dt (days c1) = days c1"
    using day1 by (rule ensure_day_id)
  have ens': "map_of (ensure_day dt (days c1)) dt = Some d1"
    by (simp only: ens day1)
  have res: "Calendar_add_event ttl2 descr2 dt s2 e2 today2 id2 c1 =
      (Inl SlotNotAvailable,
       c1\<lparr>days := AList.update dt (snd (Day_add_event id2 s2 e2 d1)) (days c1)\<rparr>)"
    using Calendar_add_event_eq [OF today2 ens', of ttl2 descr2 s2 e2 id2] by (simp add: fails ens)
  have keeps0: "list_all2 (\<lambda>a b. fst a = fst b \<and> (snd a \<noteq> None \<longrightarrow> snd b = snd a))
      (slots d1) (slots (snd (Day_add_event id2 s2 e2 d1)))"
    using add_event_slots_keeps [of "slots d1" id2 s2 e2]
    by (simp only: Day_add_event_slots)
  have keeps: "list_all2 (\<lambda>a b. fst a = fst b \<and> (snd a = Some id1 \<longrightarrow> snd b = Some id1))
      (slots d1) (slots (snd (Day_add_event id2 s2 e2 d1)))"
    by (rule list_all2_mono [OF keeps0]) auto
  have refl: "list_all2 (\<lambda>a b. fst a = fst b \<and> (snd a = Some id1 \<longrightarrow> snd b = Some id1))
      (slots x) (slots x)" for x :: day
    by (rule list_all2_refl) simp
  have "list_all2 (\<lambda>x y. fst x = fst y \<and>
          list_all2 (\<lambda>a b. fst a = fst b \<and> (snd a = Some id1 \<longrightarrow> snd b = Some id1))
            (slots (snd x)) (slots (snd y)))
        (days c1) (AList.update dt (snd (Day_add_event id2 s2 e2 d1)) (days c1))"
    using day1 keeps refl
    by (rule list_all2_update [where P = "\<lambda>x y. list_all2 (\<lambda>a b. fst a = fst b \<and>
          (snd a = Some id1 \<longrightarrow> snd b = Some id1)) (slots x) (slots y)"])
  then have "still_holds id1 c1
      (c1\<lparr>days := AList.update dt (snd (Day_add_event id2 s2 e2 d1)) (days c1)\<rparr>)"
    by (simp add: still_holds_def)
  then show ?thesis
    by (simp only: res fst_conv snd_conv simp_thms)
qed

section \<open>The example calendars\<close>

lemma ensure_day_new_lookup:
  "dt \<notin> set (map fst ds) \<Longrightarrow> map_of (ensure_day dt ds) dt = Some (Day dt)"
  by (simp add: ensure_day_def map_of_eq_None_iff update_conv')

lemma ensure_day_new: "dt \<notin> set (map fst ds) \<Longrightarrow> ensure_day dt ds = ds @ [(dt, Day dt)]"
  by (simp add: ensure_day_def map_of_eq_None_iff update_fresh)

lemma calendar_one_add:
  "Calendar_add_event ''T1'' ''D1'' (2025, 1, 1) (time 10 0) (time 10 30) (2025, 1, 1) ''id1''
     Calendar = (Inr ''id1'', calendar_one)"
proof -
  have d: "map_of (ensure_day (2025, 1, 1) (days Calendar)) (2025, 1, 1) = Some (Day (2025, 1, 1))"
    by (simp add: Calendar_def ensure_day_new_lookup)
  have t: "\<not> (2025, 1, 1) < ((2025, 1, 1) :: date)"
    by simp
  have "fst (Calendar_add_event ''T1'' ''D1'' (2025, 1, 1) (time 10 0) (time 10 30) (2025, 1, 1)
          ''id1'' Calendar) = Inr ''id1''"
    unfolding Calendar_add_event_eq [OF t d] by (simp add: Day_add_event_new_day)
  then show ?thesis
    unfolding calendar_one_def by (metis prod.collapse)
qed

lemma calendar_one_eq:
  "calendar_one =
     \<lparr>days = [((2025, 1, 1),
               (Day (2025, 1, 1))\<lparr>slots := map (book ''id1'' (time 10 0) (time 10 30))
                                             (slots (Day (2025, 1, 1)))\<rparr>)],
      events = [''id1'' \<mapsto> Event ''T1'' ''D1'' (2025, 1, 1) (time 10 0) (time 10 30) ''id1'']\<rparr>"
proof -
  have d: "map_of (ensure_day (2025, 1, 1) (days Calendar)) (2025, 1, 1) = Some (Day (2025, 1, 1))"
    by (simp add: Calendar_def ensure_day_new_lookup)
  have t: "\<not> (2025, 1, 1) < ((2025, 1, 1) :: date)"
    by simp
  show ?thesis
    unfolding calendar_one_def Calendar_add_event_eq [OF t d]
    by (simp add: Day_add_event_new_day Calendar_def ensure_day_new)
qed

lemma calendar_one_keys: "day_keys calendar_one (2025, 1, 1) = map slot_key [0..<95]"
  by (simp add: day_keys_def calendar_one_eq comp_def book_fst Day_keys [unfolded comp_def]
        del: upt_rec_numeral)

lemma calendar_reminder_eq:
  "calendar_reminder =
     calendar_one\<lparr>events :=
       [''id1'' \<mapsto> (Event ''T1'' ''D1'' (2025, 1, 1) (time 10 0) (time 10 30) ''id1'')
                     \<lparr>reminders := [\<lparr>date_time = ((2025, 1, 1), time 9 0), type_ = EMAIL\<rparr>]\<rparr>]\<rparr>"
  by (simp add: calendar_reminder_def Calendar_add_reminder_def calendar_one_eq
        Event_add_reminder_def Event_def)

lemma calendar_one_slot: "time 10 15 \<in> set (day_keys calendar_one (2025, 1, 1))"
proof -
  have "slot_key 41 = time 10 15"
    by (simp add: slot_key_def)
  moreover have "(41::nat) \<in> {0..<95}"
    by simp
  ultimately have "time 10 15 \<in> slot_key ` {0..<95}"
    by (metis imageI)
  moreover have "set (day_keys calendar_one (2025, 1, 1)) = slot_key ` {0..<95}"
    unfolding calendar_one_keys by (simp del: upt_rec_numeral)
  ultimately show ?thesis
    by (simp only:)
qed

theorem C6_overlapping_add_fails_witness:
  "fst (Calendar_add_event ''T2'' ''D2'' (2025, 1, 1) (time 10 15) (time 11 0) (2025, 1, 1) ''id2''
          calendar_one) = Inl SlotNotAvailable
   \<and> still_holds ''id1'' calendar_one
       (snd (Calendar_add_event ''T2'' ''D2'' (2025, 1, 1) (time 10 15) (time 11 0) (2025, 1, 1)
               ''id2'' calendar_one))"
proof (rule C6_overlapping_add_fails)
  show "Calendar_add_event ''T1'' ''D1'' (2025, 1, 1) (time 10 0) (time 10 30) (2025, 1, 1) ''id1''
     Calendar = (Inr ''id1'', calendar_one)"
    by (rule calendar_one_add)
  have "slot_key 41 = time 10 15"
    by (simp add: slot_key_def)
  moreover have "(41::nat) \<in> {0..<95}"
    by simp
  ultimately have "time 10 15 \<in> slot_key ` {0..<95}"
    by (metis imageI)
  moreover have "set (day_keys calendar_one (2025, 1, 1)) = slot_key ` {0..<95}"
    unfolding calendar_one_keys by (simp del: upt_rec_numeral)
  ultimately show "time 10 15 \<in> set (day_keys calendar_one (2025, 1, 1))"
    by (simp only:)
  show "in_range (time 10 0) (time 10 30) (time 10 15)"
    by (simp add: in_range_def time_def)
  show "in_range (time 10 15) (time 11 0) (time 10 15)"
    by (simp add: in_range_def time_def)
  show "\<not> (2025, 1, 1) < ((2025, 1, 1) :: date)"
    by simp
qed

text \<open>
  Without that condition the second call need not fail with \<^verbatim>\<open>SlotNotAvailable\<close>: the event of
  \<^const>\<open>calendar_one\<close> was added on 2025-01-01 from 10:00 to 10:30; a second
  \<^verbatim>\<open>Calendar.add_event\<close> for the same date from 10:15 to 11:00, made on 2025-01-02, fails with
  \<^verbatim>\<open>DateLowerThanToday\<close>.
\<close>

theorem C6_overlapping_add_past_date_counterexample:
  "Calendar_add_event ''T1'' ''D1'' (2025, 1, 1) (time 10 0) (time 10 30) (2025, 1, 1) ''id1''
     Calendar = (Inr ''id1'', calendar_one)
   \<and> time 10 15 \<in> set (day_keys calendar_one (2025, 1, 1))
   \<and> in_range (time 10 0) (time 10 30) (time 10 15)
   \<and> in_range (time 10 15) (time 11 0) (time 10 15)
   \<and> fst (Calendar_add_event ''T2'' ''D2'' (2025, 1, 1) (time 10 15) (time 11 0) (2025, 1, 2)
            ''id2'' calendar_one) = Inl DateLowerThanToday
   \<and> fst (Calendar_add_event ''T2'' ''D2'' (2025, 1, 1) (time 10 15) (time 11 0) (2025, 1, 2)
            ''id2'' calendar_one) \<noteq> Inl SlotNotAvailable"
proof -
  have past: "(2025, 1, 1) < ((2025, 1, 2) :: date)"
    by simp
  have "fst (Calendar_add_event ''T2'' ''D2'' (2025, 1, 1) (time 10 15) (time 11 0) (2025, 1, 2)
          ''id2'' calendar_one) = Inl DateLowerThanToday"
    unfolding Calendar_add_event_def date_lower_than_today_error_def
    by (simp only: past if_True fst_conv)
  moreover have "in_range (time 10 0) (time 10 30) (time 10 15)"
    by (simp add: in_range_def time_def)
  moreover have "in_range (time 10 15) (time 11 0) (time 10 15)"
    by (simp add: in_range_def time_def)
  ultimately show ?thesis
    using calendar_one_add calendar_one_slot by simp
qed

theorem C10_update_event_reminders_witness:
  "events (snd (Calendar_update_event ''id1'' ''T'' ''D'' (2025, 1, 2) (time 10 0) (time 10 30)
                  calendar_reminder)) ''id1''
     = Some (Event ''T'' ''D'' (2025, 1, 2) (time 10 0) (time 10 30) ''id1'')
   \<and> reminders (Event ''T'' ''D'' (2025, 1, 2) (time 10 0) (time 10 30) ''id1'') = []
   \<and> events (snd (Calendar_update_event ''id1'' ''T'' ''D'' (2025, 1, 1) (time 11 0) (time 11 30)
                    calendar_reminder)) ''id1''
     = Some ((Event ''T'' ''D'' (2025, 1, 1) (time 11 0) (time 11 30) ''id1'')
               \<lparr>reminders := [\<lparr>date_time = ((2025, 1, 1), time 9 0), type_ = EMAIL\<rparr>]\<rparr>)"
proof -
  define ev0 where "ev0 = (Event ''T1'' ''D1'' (2025, 1, 1) (time 10 0) (time 10 30) ''id1'')
                     \<lparr>reminders := [\<lparr>date_time = ((2025, 1, 1), time 9 0), type_ = EMAIL\<rparr>]\<rparr>"
  have ev: "events calendar_reminder ''id1'' = Some ev0"
    by (simp add: calendar_reminder_eq ev0_def)
  have ne: "date_ev ev0 \<noteq> (2025, 1, 2)"
    by (simp add: ev0_def Event_def)
  have same: "date_ev ev0 = (2025, 1, 1)"
    by (simp add: ev0_def Event_def)
  have "map fst (days calendar_reminder) = [(2025, 1, 1)]"
    by (simp add: calendar_reminder_eq calendar_one_eq)
  then have keys: "(2025, 1, 2) \<notin> set (map fst (snd (delete_event_days ''id1'' (days calendar_reminder))))"
    unfolding delete_event_days_keys by simp
  have d: "map_of (ensure_day (2025, 1, 2) (snd (delete_event_days ''id1'' (days calendar_reminder))))
             (2025, 1, 2) = Some (Day (2025, 1, 2))"
    using keys by (rule ensure_day_new_lookup)
  have ok: "fst (Calendar_update_event ''id1'' ''T'' ''D'' (2025, 1, 2) (time 10 0) (time 10 30)
                  calendar_reminder) = Inr ()"
    unfolding Calendar_update_event_new_date [OF ev ne d] by (simp add: Day_add_event_new_day)
  have new_date: "events (snd (Calendar_update_event ''id1'' ''T'' ''D'' (2025, 1, 2) (time 10 0)
                    (time 10 30) calendar_reminder)) ''id1''
     = Some (Event ''T'' ''D'' (2025, 1, 2) (time 10 0) (time 10 30) ''id1'')
   \<and> reminders (Event ''T'' ''D'' (2025, 1, 2) (time 10 0) (time 10 30) ''id1'') = []"
    using C10_update_event_reminders [OF ev, of "(2025, 1, 2)" "''T''" "''D''" "time 10 0" "time 10 30"]
      ne ok by blast
  have same_date: "events (snd (Calendar_update_event ''id1'' ''T'' ''D'' (2025, 1, 1) (time 11 0)
                    (time 11 30) calendar_reminder)) ''id1''
     = Some (ev0\<lparr>title := ''T'', description := ''D'', date_ev := (2025, 1, 1),
                  start_at := time 11 0, end_at := time 11 30\<rparr>)"
    using C10_update_event_reminders [OF ev, of "(2025, 1, 1)" "''T''" "''D''" "time 11 0" "time 11 30"]
      same by blast
  have "ev0\<lparr>title := ''T'', description := ''D'', date_ev := (2025, 1, 1),
             start_at := time 11 0, end_at := time 11 30\<rparr>
        = (Event ''T'' ''D'' (2025, 1, 1) (time 11 0) (time 11 30) ''id1'')
               \<lparr>reminders := [\<lparr>date_time = ((2025, 1, 1), time 9 0), type_ = EMAIL\<rparr>]\<rparr>"
    by (simp add: ev0_def Event_def)
  with new_date same_date show ?thesis
    by (simp only: simp_thms)
qed

section \<open>Adding then deleting, and moving to another date\<close>

lemma delete_event_days_update_clear:
  "\<forall>dt'. (dt', i) \<notin> bookings ds \<Longrightarrow> map_of ds dt = Some d \<Longrightarrow>
   delete_event_days i (AList.update dt d' ds) =
     (Inr (), AList.update dt (d'\<lparr>slots := clear_event_slots i (slots d')\<rparr>) ds)"
proof (induction ds)
  case Nil
  then show ?case by simp
next
  case (Cons x ds)
  obtain k dk where x: "x = (k, dk)" by (cases x)
  have fresh_k: "\<not> in_slot_values i dk"
    using Cons.prems(1) [rule_format, of k] by (simp add: x bookings_Cons)
  have fresh_ds: "\<forall>dt'. (dt', i) \<notin> bookings ds"
  proof
    fix dt'
    show "(dt', i) \<notin> bookings ds"
      using Cons.prems(1) [rule_format, of dt'] by (simp add: x bookings_Cons)
  qed
  show ?case
  proof (cases "k = dt")
    case True
    show ?thesis
    proof (cases "in_slot_values i d'")
      case in_d': True
      then show ?thesis
        using \<open>k = dt\<close> by (simp add: x Day_delete_event_eq)
    next
      case False
      then have "clear_event_slots i (slots d') = slots d'"
        by (simp add: in_slot_values_iff clear_event_slots_absent)
      with False show ?thesis
        using \<open>k = dt\<close> fresh_ds by (simp add: x delete_event_days_fresh)
    qed
  next
    case False
    with Cons.prems(2) have "map_of ds dt = Some d"
      by (simp add: x)
    with Cons.IH fresh_ds have "delete_event_days i (AList.update dt d' ds) =
       (Inr (), AList.update dt (d'\<lparr>slots := clear_event_slots i (slots d')\<rparr>) ds)"
      by simp
    with False fresh_k show ?thesis
      by (simp add: x)
  qed
qed

lemma map_of_in_bookings:
  "map_of ds dt = Some d \<Longrightarrow> in_slot_values i d \<Longrightarrow> (dt, i) \<in> bookings ds"
  by (auto simp: bookings_def dest: map_of_SomeD)

text \<open>
  C5. Let \<^verbatim>\<open>Calendar.add_event\<close> succeed and return the id \<open>i\<close>, the id being a new one: no
  key of the events and held by no slot. Then \<^verbatim>\<open>Calendar.delete_event(i)\<close> at once succeeds
  and gives back the calendar as it was before the add, but for the day of the date, which now
  exists: \<open>i\<close> is no longer a key of the events, and every slot of the day in the range, which
  held \<open>i\<close> after the add, is free again.
\<close>

theorem C5_add_then_delete:
  assumes fresh: "events c new_id = None" "\<forall>dt'. (dt', new_id) \<notin> bookings (days c)"
    and add: "Calendar_add_event ttl descr dt s e today new_id c = (Inr i, c1)"
  shows "i = new_id
       \<and> Calendar_delete_event i c1 = (Inr (), c\<lparr>days := ensure_day dt (days c)\<rparr>)
       \<and> events (snd (Calendar_delete_event i c1)) i = None
       \<and> (\<forall>slot \<in> set (day_keys c1 dt). in_range s e slot \<longrightarrow>
            slot_value c1 dt slot = Some i
            \<and> slot_value (snd (Calendar_delete_event i c1)) dt slot = None)"
proof -
  define ds where "ds = ensure_day dt (days c)"
  have today: "\<not> dt < today"
    using add by (auto simp: Calendar_add_event_def date_lower_than_today_error_def)
  obtain d0 where d0: "map_of ds dt = Some d0"
    unfolding ds_def using ensure_day_present [of dt "days c"] by auto
  obtain r0 d1 where add1: "Day_add_event new_id s e d0 = (r0, d1)"
    by (cases "Day_add_event new_id s e d0")
  have eq1: "(Inr i, c1) =
     (case r0 of
        Inl err \<Rightarrow> (Inl err, c\<lparr>days := AList.update dt d1 ds\<rparr>)
      | Inr u \<Rightarrow>
          (Inr new_id,
           c\<lparr>days := AList.update dt d1 ds,
             events := (events c)(new_id \<mapsto> Event ttl descr dt s e new_id)\<rparr>))"
    using add Calendar_add_event_eq [OF today d0 [unfolded ds_def], of ttl descr s e new_id]
    unfolding add1 fst_conv snd_conv ds_def by simp
  have r0: "r0 = Inr ()"
    using eq1 by (cases r0) simp_all
  have i: "i = new_id"
    using eq1 r0 by simp
  have c1: "c1 = c\<lparr>days := AList.update dt d1 ds,
                   events := (events c)(new_id \<mapsto> Event ttl descr dt s e new_id)\<rparr>"
    using eq1 r0 by simp
  have free: "list_all (\<lambda>x. \<not> occupied_in s e x) (slots d0)"
    and d1: "d1 = d0\<lparr>slots := map (book new_id s e) (slots d0)\<rparr>"
    using add1 r0 Day_add_event_ok [of new_id s e d0 "()" d1] by simp_all
  have fresh_ds: "\<forall>dt'. (dt', new_id) \<notin> bookings ds"
    using fresh(2) by (simp add: ds_def ensure_day_bookings)
  have not_in_d0: "new_id \<notin> slot_ids (slots d0)"
    using fresh_ds map_of_in_bookings [OF d0, of new_id] unfolding in_slot_values_iff by blast
  have cleared: "clear_event_slots new_id (slots d1) = slots d0"
    unfolding d1 using not_in_d0 free by (simp add: clear_event_slots_book)
  have restored: "d1\<lparr>slots := clear_event_slots new_id (slots d1)\<rparr> = d0"
    unfolding cleared by (simp add: d1)
  have del: "delete_event_days new_id (AList.update dt d1 ds) = (Inr (), ds)"
    using delete_event_days_update_clear [OF fresh_ds d0, of d1]
    by (simp only: restored update_triv [OF d0])
  have ev: "(events c1)(new_id := None) = events c"
    using fresh(1) by (auto simp: c1 fun_eq_iff)
  have deleted: "Calendar_delete_event i c1 = (Inr (), c\<lparr>days := ds\<rparr>)"
    unfolding i Calendar_delete_event_eq using ev del by (simp add: c1)
  have day1: "map_of (days c1) dt = Some d1"
    by (simp add: c1 update_conv')
  have keys: "day_keys c1 dt = map fst (slots d0)"
    by (simp add: day_keys_def day1 d1 comp_def book_fst)
  have slots_ok: "slot_value c1 dt slot = Some i
       \<and> slot_value (snd (Calendar_delete_event i c1)) dt slot = None"
    if "slot \<in> set (day_keys c1 dt)" and "in_range s e slot" for slot
  proof -
    from that(1) have "slot \<in> fst ` set (slots d0)"
      by (simp add: keys)
    then obtain v where v: "map_of (slots d0) slot = Some v"
      by (metis map_of_eq_None_iff not_Some_eq)
    then have "(slot, v) \<in> set (slots d0)"
      by (rule map_of_SomeD)
    with free have "\<not> occupied_in s e (slot, v)"
      by (auto simp: list_all_iff)
    with that(2) have "v = None"
      by (simp add: occupied_in_def)
    with v that(2) show ?thesis
      by (simp add: slot_value_def day1 d1 map_of_book deleted [unfolded i] d0 i)
  qed
  from i deleted fresh(1) slots_ok show ?thesis
    by (simp add: ds_def)
qed

lemma slot_ids_entry: "(slot, Some i) \<in> set sl \<Longrightarrow> i \<in> slot_ids sl"
  by (force simp: slot_ids_def)

text \<open>
  C9. Let the calendar hold an event under \<open>event_id\<close>, booked on the day of its date and on no
  other day, the dates of the days being distinct as the keys of a dictionary are. After a
  successful \<^verbatim>\<open>Calendar.update_event\<close> to another date \<open>dt\<close>: no slot of the day of the old date
  holds \<open>event_id\<close>, nor does a slot of any day but that of \<open>dt\<close>; the events hold under
  \<open>event_id\<close> an event with that same id and the date \<open>dt\<close>; the day of \<open>dt\<close> exists, and its
  slots that hold \<open>event_id\<close> are exactly those of the new range.
\<close>

theorem C9_update_event_new_date:
  assumes ev: "events c event_id = Some ev" and new_date: "date_ev ev \<noteq> dt"
    and booked: "\<forall>dt'. (dt', event_id) \<in> bookings (days c) \<longrightarrow> dt' = date_ev ev"
    and dist: "distinct (map fst (days c))"
    and ok: "Calendar_update_event event_id ttl descr dt s e c = (Inr (), c')"
  shows "(date_ev ev, event_id) \<notin> bookings (days c')
       \<and> (\<forall>dt'. (dt', event_id) \<in> bookings (days c') \<longrightarrow> dt' = dt)
       \<and> events c' event_id = Some (Event ttl descr dt s e event_id)
       \<and> id (Event ttl descr dt s e event_id) = event_id
       \<and> date_ev (Event ttl descr dt s e event_id) = dt
       \<and> map_of (days c') dt \<noteq> None
       \<and> (\<forall>slot \<in> set (day_keys c' dt).
            (slot_value c' dt slot = Some event_id) = in_range s e slot)"
proof -
  define ds1 where "ds1 = snd (delete_event_days event_id (days c))"
  define ds where "ds = ensure_day dt ds1"
  have gone1: "(dt'', event_id) \<notin> bookings ds1" for dt''
    unfolding ds1_def using dist booked by (rule delete_event_days_gone)
  then have gone: "(dt'', event_id) \<notin> bookings ds" for dt''
    by (simp add: ds_def ensure_day_bookings)
  obtain d where d: "map_of ds dt = Some d"
    unfolding ds_def using ensure_day_present [of dt ds1] by auto
  obtain r0 d' where add1: "Day_add_event event_id s e d = (r0, d')"
    by (cases "Day_add_event event_id s e d")
  have eq1: "(Inr (), c') =
     (r0, c\<lparr>days := AList.update dt d' ds,
            events := (events c)(event_id \<mapsto> Event ttl descr dt s e event_id)\<rparr>)"
    using ok Calendar_update_event_new_date [OF ev new_date d [unfolded ds_def ds1_def],
        of ttl descr s e]
    unfolding add1 fst_conv snd_conv ds_def ds1_def by simp
  then have r0: "r0 = Inr ()"
    and c': "c' = c\<lparr>days := AList.update dt d' ds,
                     events := (events c)(event_id \<mapsto> Event ttl descr dt s e event_id)\<rparr>"
    by simp_all
  have d': "d' = d\<lparr>slots := map (book event_id s e) (slots d)\<rparr>"
    using add1 r0 Day_add_event_ok [of event_id s e d "()" d'] by simp
  have only_dt: "dt' = dt" if "(dt', event_id) \<in> bookings (days c')" for dt'
  proof -
    from that have "(dt', event_id) \<in> bookings (AList.update dt d' ds)"
      by (simp add: c')
    then have "(dt', event_id) \<in> bookings ds \<union> {(dt', i). dt' = dt \<and> in_slot_values i d'}"
      using bookings_update [of dt d' ds] by blast
    with gone show ?thesis
      by blast
  qed
  have old_free: "(date_ev ev, event_id) \<notin> bookings (days c')"
    using only_dt new_date by blast
  have registered: "events c' event_id = Some (Event ttl descr dt s e event_id)"
    by (simp add: c')
  have day: "map_of (days c') dt = Some d'"
    by (simp add: c' update_conv')
  have keys: "day_keys c' dt = map fst (slots d)"
    by (simp add: day_keys_def day d' comp_def book_fst)
  have not_in_d: "event_id \<notin> slot_ids (slots d)"
    using gone map_of_in_bookings [OF d, of event_id] unfolding in_slot_values_iff by blast
  have slots_ok: "(slot_value c' dt slot = Some event_id) = in_range s e slot"
    if "slot \<in> set (day_keys c' dt)" for slot
  proof -
    from that have "slot \<in> fst ` set (slots d)"
      by (simp add: keys)
    then obtain v where v: "map_of (slots d) slot = Some v"
      by (metis map_of_eq_None_iff not_Some_eq)
    then have "(slot, v) \<in> set (slots d)"
      by (rule map_of_SomeD)
    with not_in_d have "v \<noteq> Some event_id"
      using slot_ids_entry by blast
    with v show ?thesis
      by (simp add: slot_value_def day d' map_of_book)
  qed
  from old_free only_dt registered day slots_ok show ?thesis
    by (simp add: Event_def)
qed

theorem C5_add_then_delete_witness:
  "Calendar_delete_event ''id1'' calendar_one
     = (Inr (), Calendar\<lparr>days := ensure_day (2025, 1, 1) (days Calendar)\<rparr>)
   \<and> events (snd (Calendar_delete_event ''id1'' calendar_one)) ''id1'' = None
   \<and> slot_value calendar_one (2025, 1, 1) (time 10 15) = Some ''id1''
   \<and> slot_value (snd (Calendar_delete_event ''id1'' calendar_one)) (2025, 1, 1) (time 10 15) = None"
proof -
  have fresh1: "events Calendar ''id1'' = None"
    by (simp add: Calendar_def)
  have fresh2: "\<forall>dt'. (dt', ''id1'') \<notin> bookings (days Calendar)"
    by (simp add: Calendar_def)
  have range: "in_range (time 10 0) (time 10 30) (time 10 15)"
    by (simp add: in_range_def time_def)
  from C5_add_then_delete [OF fresh1 fresh2 calendar_one_add] calendar_one_slot range
  show ?thesis
    by blast
qed

lemma calendar_moved_update:
  "Calendar_update_event ''id1'' ''T'' ''D'' (2025, 1, 2) (time 11 0) (time 12 0) calendar_one
     = (Inr (), calendar_moved)"
  and calendar_moved_keys: "day_keys calendar_moved (2025, 1, 2) = map slot_key [0..<95]"
proof -
  have ev: "events calendar_one ''id1''
      = Some (Event ''T1'' ''D1'' (2025, 1, 1) (time 10 0) (time 10 30) ''id1'')"
    by (simp add: calendar_one_eq)
  have ne: "date_ev (Event ''T1'' ''D1'' (2025, 1, 1) (time 10 0) (time 10 30) ''id1'') \<noteq> (2025, 1, 2)"
    by (simp add: Event_def)
  have "map fst (days calendar_one) = [(2025, 1, 1)]"
    by (simp add: calendar_one_eq)
  then have keys: "(2025, 1, 2) \<notin> set (map fst (snd (delete_event_days ''id1'' (days calendar_one))))"
    unfolding delete_event_days_keys by simp
  have d: "map_of (ensure_day (2025, 1, 2) (snd (delete_event_days ''id1'' (days calendar_one))))
             (2025, 1, 2) = Some (Day (2025, 1, 2))"
    using keys by (rule ensure_day_new_lookup)
  note eq = Calendar_update_event_new_date [OF ev ne d, of "''T''" "''D''" "time 11 0" "time 12 0"]
  have "fst (Calendar_update_event ''id1'' ''T'' ''D'' (2025, 1, 2) (time 11 0) (time 12 0)
               calendar_one) = Inr ()"
    unfolding eq by (simp add: Day_add_event_new_day)
  then show "Calendar_update_event ''id1'' ''T'' ''D'' (2025, 1, 2) (time 11 0) (time 12 0)
      calendar_one = (Inr (), calendar_moved)"
    unfolding calendar_moved_def by (metis prod.collapse)
  have "map_of (days calendar_moved) (2025, 1, 2)
      = Some (snd (Day_add_event ''id1'' (time 11 0) (time 12 0) (Day (2025, 1, 2))))"
    unfolding calendar_moved_def eq by (simp add: update_conv')
  then show "day_keys calendar_moved (2025, 1, 2) = map slot_key [0..<95]"
    by (simp add: day_keys_def Day_add_event_new_day comp_def book_fst Day_keys [unfolded comp_def]
          del: upt_rec_numeral)
qed

theorem C9_update_event_new_date_witness:
  "((2025, 1, 1), ''id1'') \<notin> bookings (days calendar_moved)
   \<and> events calendar_moved ''id1''
       = Some (Event ''T'' ''D'' (2025, 1, 2) (time 11 0) (time 12 0) ''id1'')
   \<and> map_of (days calendar_moved) (2025, 1, 2) \<noteq> None
   \<and> slot_value calendar_moved (2025, 1, 2) (time 11 15) = Some ''id1''
   \<and> slot_value calendar_moved (2025, 1, 2) (time 12 0) \<noteq> Some ''id1''"
proof -
  have ev: "events calendar_one ''id1''
      = Some (Event ''T1'' ''D1'' (2025, 1, 1) (time 10 0) (time 10 30) ''id1'')"
    by (simp add: calendar_one_eq)
  have date: "date_ev (Event ''T1'' ''D1'' (2025, 1, 1) (time 10 0) (time 10 30) ''id1'') = (2025, 1, 1)"
    by (simp add: Event_def)
  have ne: "date_ev (Event ''T1'' ''D1'' (2025, 1, 1) (time 10 0) (time 10 30) ''id1'') \<noteq> (2025, 1, 2)"
    by (simp add: Event_def)
  have keys1: "fst ` set (days calendar_one) = {(2025, 1, 1)}"
    by (simp add: calendar_one_eq)
  have booked: "\<forall>dt'. (dt', ''id1'') \<in> bookings (days calendar_one) \<longrightarrow>
      dt' = date_ev (Event ''T1'' ''D1'' (2025, 1, 1) (time 10 0) (time 10 30) ''id1'')"
    unfolding date using bookings_key [of _ "''id1''" "days calendar_one"] keys1 by blast
  have dist: "distinct (map fst (days calendar_one))"
    by (simp add: calendar_one_eq)
  have k1: "time 11 15 \<in> set (day_keys calendar_moved (2025, 1, 2))"
  proof -
    have "slot_key 45 = time 11 15" by (simp add: slot_key_def)
    moreover have "(45::nat) \<in> {0..<95}" by simp
    ultimately have "time 11 15 \<in> slot_key ` {0..<95}" by (metis imageI)
    then show ?thesis
      unfolding calendar_moved_keys by (simp del: upt_rec_numeral)
  qed
  have k2: "time 12 0 \<in> set (day_keys calendar_moved (2025, 1, 2))"
  proof -
    have "slot_key 48 = time 12 0" by (simp add: slot_key_def)
    moreover have "(48::nat) \<in> {0..<95}" by simp
    ultimately have "time 12 0 \<in> slot_key ` {0..<95}" by (metis imageI)
    then show ?thesis
      unfolding calendar_moved_keys by (simp del: upt_rec_numeral)
  qed
  have r1: "in_range (time 11 0) (time 12 0) (time 11 15)"
    by (simp add: in_range_def time_def)
  have r2: "\<not> in_range (time 11 0) (time 12 0) (time 12 0)"
    by (simp add: in_range_def time_def)
  from C9_update_event_new_date [OF ev ne booked dist calendar_moved_update] date k1 k2 r1 r2
  show ?thesis
    by (metis (no_types, lifting))
qed

section \<open>The reachable calendars are consistent\<close>

lemma consistentI:
  assumes "dom (events c) \<subseteq> issued" and "failed \<subseteq> issued" and "dom (events c) \<inter> failed = {}"
    and "distinct (map fst (days c))"
    and "\<And>k ev. events c k = Some ev \<Longrightarrow> id ev = k"
    and "\<And>dt i. (dt, i) \<in> bookings (days c) \<Longrightarrow>
           i \<in> failed \<or> (\<exists>ev. events c i = Some ev \<and> date_ev ev = dt)"
  shows "consistent issued failed c"
  unfolding consistent_def using assms by blast

lemma consistentD:
  assumes "consistent issued failed c"
  shows "dom (events c) \<subseteq> issued" and "failed \<subseteq> issued" and "dom (events c) \<inter> failed = {}"
    and "distinct (map fst (days c))"
    and "\<And>k ev. events c k = Some ev \<Longrightarrow> id ev = k"
    and "\<And>dt i. (dt, i) \<in> bookings (days c) \<Longrightarrow>
           i \<in> failed \<or> (\<exists>ev. events c i = Some ev \<and> date_ev ev = dt)"
  using assms unfolding consistent_def by blast+

lemma consistent_initial: "consistent {} {} Calendar"
  by (rule consistentI) (simp_all add: Calendar_def)

lemma bookings_add_day:
  assumes "map_of ds dt = Some d" and "Day_add_event i s e d = (r, d')"
  shows "bookings (AList.update dt d' ds) \<subseteq> insert (dt, i) (bookings ds)"
proof
  fix x assume "x \<in> bookings (AList.update dt d' ds)"
  then have "x \<in> bookings ds \<union> {(dt', j). dt' = dt \<and> in_slot_values j d'}"
    using bookings_update [of dt d' ds] by blast
  then show "x \<in> insert (dt, i) (bookings ds)"
  proof
    assume "x \<in> bookings ds"
    then show ?thesis by simp
  next
    assume "x \<in> {(dt', j). dt' = dt \<and> in_slot_values j d'}"
    then obtain j where x: "x = (dt, j)" and j: "in_slot_values j d'"
      by blast
    from Day_add_event_ids [OF assms(2) j] show ?thesis
    proof
      assume "j = i"
      with x show ?thesis by simp
    next
      assume "in_slot_values j d"
      with assms(1) have "(dt, j) \<in> bookings ds"
        by (rule map_of_in_bookings)
      with x show ?thesis by simp
    qed
  qed
qed

lemma consistent_add_event:
  assumes inv: "consistent issued failed c" and fresh: "new_id \<notin> issued"
    and add: "Calendar_add_event ttl descr dt s e today new_id c = (r, c')"
  shows "consistent (if r = Inl DateLowerThanToday then issued else insert new_id issued)
           (if r = Inl SlotNotAvailable then insert new_id failed else failed) c'"
proof (cases "dt < today")
  case True
  with add have "r = Inl DateLowerThanToday" and "c' = c"
    by (simp_all add: Calendar_add_event_def date_lower_than_today_error_def)
  with inv show ?thesis by simp
next
  case False
  note I = consistentD [OF inv]
  define ds where "ds = ensure_day dt (days c)"
  obtain d where d: "map_of ds dt = Some d"
    unfolding ds_def using ensure_day_present [of dt "days c"] by auto
  obtain r0 d1 where add1: "Day_add_event new_id s e d = (r0, d1)"
    by (cases "Day_add_event new_id s e d")
  have eq1: "(r, c') =
     (case r0 of
        Inl err \<Rightarrow> (Inl err, c\<lparr>days := AList.update dt d1 ds\<rparr>)
      | Inr u \<Rightarrow>
          (Inr new_id,
           c\<lparr>days := AList.update dt d1 ds,
             events := (events c)(new_id \<mapsto> Event ttl descr dt s e new_id)\<rparr>))"
    using add Calendar_add_event_eq [OF False d [unfolded ds_def], of ttl descr s e new_id]
    unfolding add1 fst_conv snd_conv ds_def by simp
  have days': "days c' = AList.update dt d1 ds"
    using eq1 by (cases r0) simp_all
  have dist: "distinct (map fst (days c'))"
    unfolding days' ds_def using I(4) by (simp add: distinct_update ensure_day_distinct)
  have sub: "bookings (days c') \<subseteq> insert (dt, new_id) (bookings (days c))"
    unfolding days' using bookings_add_day [OF d add1] by (simp add: ds_def ensure_day_bookings)
  from Day_add_event_outcome [OF add1] show ?thesis
  proof
    assume r0: "r0 = Inr ()"
    with eq1 have r: "r = Inr new_id"
      and ev': "events c' = (events c)(new_id \<mapsto> Event ttl descr dt s e new_id)"
      by simp_all
    have "consistent (insert new_id issued) failed c'"
    proof (rule consistentI)
      show "dom (events c') \<subseteq> insert new_id issued"
        using I(1) by (auto simp: ev')
      show "failed \<subseteq> insert new_id issued"
        using I(2) by blast
      show "dom (events c') \<inter> failed = {}"
        using I(2,3) fresh by (auto simp: ev')
      show "distinct (map fst (days c'))"
        by (rule dist)
      show "id ev = k" if "events c' k = Some ev" for k ev
        using that I(5) [of k ev] by (auto simp: ev' Event_def split: if_splits)
      show "i \<in> failed \<or> (\<exists>ev. events c' i = Some ev \<and> date_ev ev = dt')"
        if "(dt', i) \<in> bookings (days c')" for dt' i
      proof (cases "i = new_id")
        case True
        have "(dt', new_id) \<notin> bookings (days c)"
          using I(6) [of dt' new_id] I(1,2) fresh by blast
        with that sub True have "dt' = dt"
          by blast
        with True show ?thesis
          by (simp add: ev' Event_def)
      next
        case False
        with that sub have "(dt', i) \<in> bookings (days c)"
          by blast
        from I(6) [OF this] False show ?thesis
          by (simp add: ev')
      qed
    qed
    with r show ?thesis by simp
  next
    assume r0: "r0 = Inl SlotNotAvailable"
    with eq1 have r: "r = Inl SlotNotAvailable" and ev': "events c' = events c"
      by simp_all
    have "consistent (insert new_id issued) (insert new_id failed) c'"
    proof (rule consistentI)
      show "dom (events c') \<subseteq> insert new_id issued"
        using I(1) by (auto simp: ev')
      show "insert new_id failed \<subseteq> insert new_id issued"
        using I(2) by blast
      show "dom (events c') \<inter> insert new_id failed = {}"
        using I(1,3) fresh by (auto simp: ev')
      show "distinct (map fst (days c'))"
        by (rule dist)
      show "id ev = k" if "events c' k = Some ev" for k ev
        using that I(5) [of k ev] by (simp add: ev')
      show "i \<in> insert new_id failed \<or> (\<exists>ev. events c' i = Some ev \<and> date_ev ev = dt')"
        if "(dt', i) \<in> bookings (days c')" for dt' i
      proof (cases "i = new_id")
        case True
        then show ?thesis by simp
      next
        case False
        with that sub have "(dt', i) \<in> bookings (days c)"
          by blast
        from I(6) [OF this] show ?thesis
          by (auto simp: ev')
      qed
    qed
    with r show ?thesis by simp
  qed
qed

lemma consistent_events_update:
  assumes inv: "consistent issued failed c" and ev: "events c k = Some ev"
    and same: "id ev' = id ev" "date_ev ev' = date_ev ev"
  shows "consistent issued failed (c\<lparr>events := (events c)(k \<mapsto> ev')\<rparr>)"
proof (rule consistentI)
  note I = consistentD [OF inv]
  show "dom (events (c\<lparr>events := (events c)(k \<mapsto> ev')\<rparr>)) \<subseteq> issued"
    using I(1) ev by auto
  show "failed \<subseteq> issued"
    by (rule I(2))
  show "dom (events (c\<lparr>events := (events c)(k \<mapsto> ev')\<rparr>)) \<inter> failed = {}"
    using I(3) ev by auto
  show "distinct (map fst (days (c\<lparr>events := (events c)(k \<mapsto> ev')\<rparr>)))"
    using I(4) by simp
  show "id e = j" if "events (c\<lparr>events := (events c)(k \<mapsto> ev')\<rparr>) j = Some e" for j e
    using that I(5) [of j e] I(5) [OF ev] same(1) by (auto split: if_splits)
  show "i \<in> failed \<or>
      (\<exists>e. events (c\<lparr>events := (events c)(k \<mapsto> ev')\<rparr>) i = Some e \<and> date_ev e = dt)"
    if "(dt, i) \<in> bookings (days (c\<lparr>events := (events c)(k \<mapsto> ev')\<rparr>))" for dt i
  proof -
    from that have "(dt, i) \<in> bookings (days c)"
      by simp
    from I(6) [OF this] ev same(2) show ?thesis
      by (cases "i = k") auto
  qed
qed

lemma consistent_add_reminder:
  assumes "consistent issued failed c" and "Calendar_add_reminder event_id dtm ty c = (r, c')"
  shows "consistent issued failed c'"
proof (cases "events c event_id")
  case None
  with assms show ?thesis
    by (simp add: Calendar_add_reminder_def)
next
  case (Some ev)
  with assms(2) have "c' = c\<lparr>events := (events c)(event_id \<mapsto> Event_add_reminder dtm ty ev)\<rparr>"
    by (simp add: Calendar_add_reminder_def)
  with consistent_events_update [OF assms(1) Some, of "Event_add_reminder dtm ty ev"]
  show ?thesis
    by (simp add: Event_add_reminder_def)
qed

lemma consistent_delete_reminder:
  assumes "consistent issued failed c"
    and "Calendar_delete_reminder event_id reminder_index c = (r, c')"
  shows "consistent issued failed c'"
proof (cases "events c event_id")
  case None
  with assms show ?thesis
    by (simp add: Calendar_delete_reminder_def)
next
  case (Some ev)
  with assms(2) have "c' = c\<lparr>events :=
      (events c)(event_id \<mapsto> snd (Event_delete_reminder reminder_index ev))\<rparr>"
    by (simp add: Calendar_delete_reminder_eq)
  with consistent_events_update [OF assms(1) Some,
      of "snd (Event_delete_reminder reminder_index ev)"]
  show ?thesis
    by (simp add: Event_delete_reminder_def)
qed

lemma consistent_booked:
  assumes inv: "consistent issued failed c" and ev: "events c i = Some ev"
  shows "\<forall>dt'. (dt', i) \<in> bookings (days c) \<longrightarrow> dt' = date_ev ev"
proof (intro allI impI)
  fix dt' assume "(dt', i) \<in> bookings (days c)"
  from consistentD(6) [OF inv this] consistentD(3) [OF inv] ev show "dt' = date_ev ev"
    by auto
qed

lemma consistent_delete_event:
  assumes inv: "consistent issued failed c" and del: "Calendar_delete_event i c = (r, c')"
  shows "consistent issued failed c'"
proof (cases "events c i")
  case None
  with assms show ?thesis
    by (simp add: Calendar_delete_event_eq)
next
  case (Some ev)
  note I = consistentD [OF inv]
  from del Some have c': "c' = c\<lparr>days := snd (delete_event_days i (days c)),
                               events := (events c)(i := None)\<rparr>"
    by (simp add: Calendar_delete_event_eq)
  have gone: "(dt', i) \<notin> bookings (snd (delete_event_days i (days c)))" for dt'
    using I(4) consistent_booked [OF inv Some] by (rule delete_event_days_gone)
  show ?thesis
  proof (rule consistentI)
    show "dom (events c') \<subseteq> issued"
      using I(1) by (auto simp: c')
    show "failed \<subseteq> issued"
      by (rule I(2))
    show "dom (events c') \<inter> failed = {}"
      using I(3) by (auto simp: c')
    show "distinct (map fst (days c'))"
      using I(4) by (simp add: c' delete_event_days_keys)
    show "id e = k" if "events c' k = Some e" for k e
      using that I(5) [of k e] by (auto simp: c' split: if_splits)
    show "j \<in> failed \<or> (\<exists>e. events c' j = Some e \<and> date_ev e = dt')"
      if "(dt', j) \<in> bookings (days c')" for dt' j
    proof -
      from that have b: "(dt', j) \<in> bookings (snd (delete_event_days i (days c)))"
        by (simp add: c')
      with gone have "j \<noteq> i"
        by blast
      moreover from b have "(dt', j) \<in> bookings (days c)"
        using delete_event_days_sub by blast
      ultimately show ?thesis
        using I(6) [of dt' j] by (simp add: c')
    qed
  qed
qed

lemma consistent_update_event:
  assumes inv: "consistent issued failed c"
    and upd: "Calendar_update_event i ttl descr dt s e c = (r, c')"
  shows "consistent issued failed c'"
proof (cases "events c i")
  case None
  with assms show ?thesis
    by (simp add: Calendar_update_event_def event_not_found_error_def)
next
  case (Some ev)
  note I = consistentD [OF inv]
  show ?thesis
  proof (cases "date_ev ev = dt")
    case True
    have idev: "id ev = i"
      using I(5) [OF Some] .
    from upd have c': "c' = c\<lparr>events := (events c)(i \<mapsto> ev\<lparr>title := ttl, description := descr,
                                   date_ev := dt, start_at := s, end_at := e\<rparr>),
                              days := snd (update_event_days i i s e (days c))\<rparr>"
      unfolding Calendar_update_event_same_date [OF Some True] idev by simp
    have mid: "consistent issued failed
        (c\<lparr>events := (events c)(i \<mapsto> ev\<lparr>title := ttl, description := descr,
                                   date_ev := dt, start_at := s, end_at := e\<rparr>)\<rparr>)"
      using inv Some by (rule consistent_events_update) (simp_all add: True)
    note J = consistentD [OF mid]
    show ?thesis
    proof (rule consistentI)
      show "dom (events c') \<subseteq> issued"
        using J(1) by (simp add: c')
      show "failed \<subseteq> issued"
        by (rule I(2))
      show "dom (events c') \<inter> failed = {}"
        using J(3) by (simp add: c')
      show "distinct (map fst (days c'))"
        using I(4) by (simp add: c' update_event_days_keys)
      show "id e' = k" if "events c' k = Some e'" for k e'
        using that J(5) [of k e'] by (simp add: c')
      show "j \<in> failed \<or> (\<exists>e'. events c' j = Some e' \<and> date_ev e' = dt')"
        if "(dt', j) \<in> bookings (days c')" for dt' j
      proof -
        from that have "(dt', j) \<in> bookings (snd (update_event_days i i s e (days c)))"
          by (simp add: c')
        then have "(dt', j) \<in> bookings (days c)"
          using update_event_days_sub by blast
        then show ?thesis
          using J(6) [of dt' j] by (simp add: c')
      qed
    qed
  next
    case False
    define ds1 where "ds1 = snd (delete_event_days i (days c))"
    define ds where "ds = ensure_day dt ds1"
    have gone: "(dt', i) \<notin> bookings ds" for dt'
      unfolding ds_def ensure_day_bookings ds1_def
      using I(4) consistent_booked [OF inv Some] by (rule delete_event_days_gone)
    have sub1: "bookings ds \<subseteq> bookings (days c)"
      unfolding ds_def ensure_day_bookings ds1_def by (rule delete_event_days_sub)
    obtain d where d: "map_of ds dt = Some d"
      unfolding ds_def using ensure_day_present [of dt ds1] by auto
    obtain r0 d' where add1: "Day_add_event i s e d = (r0, d')"
      by (cases "Day_add_event i s e d")
    from upd have c': "c' = c\<lparr>days := AList.update dt d' ds,
                               events := (events c)(i \<mapsto> Event ttl descr dt s e i)\<rparr>"
      using Calendar_update_event_new_date [OF Some False d [unfolded ds_def ds1_def],
          of ttl descr s e]
      unfolding add1 fst_conv snd_conv ds_def ds1_def by simp
    have sub: "bookings (days c') \<subseteq> insert (dt, i) (bookings ds)"
      using bookings_add_day [OF d add1] by (simp add: c')
    show ?thesis
    proof (rule consistentI)
      show "dom (events c') \<subseteq> issued"
        using I(1) Some by (auto simp: c')
      show "failed \<subseteq> issued"
        by (rule I(2))
      show "dom (events c') \<inter> failed = {}"
        using I(3) Some by (auto simp: c')
      show "distinct (map fst (days c'))"
        using I(4)
        by (simp add: c' ds_def ds1_def distinct_update ensure_day_distinct delete_event_days_keys)
      show "id e' = k" if "events c' k = Some e'" for k e'
        using that I(5) [of k e'] by (auto simp: c' Event_def split: if_splits)
      show "j \<in> failed \<or> (\<exists>e'. events c' j = Some e' \<and> date_ev e' = dt')"
        if "(dt', j) \<in> bookings (days c')" for dt' j
      proof (cases "j = i")
        case True
        with that sub gone have "dt' = dt"
          by blast
        with True show ?thesis
          by (simp add: c' Event_def)
      next
        case False
        with that sub sub1 have "(dt', j) \<in> bookings (days c)"
          by blast
        from I(6) [OF this] False show ?thesis
          by (simp add: c')
      qed
    qed
  qed
qed

lemma reachable_consistent: "reachable issued failed c \<Longrightarrow> consistent issued failed c"
proof (induction rule: reachable.induct)
  case initial
  show ?case by (rule consistent_initial)
next
  case (add_event issued failed c new_id ttl descr dt s e today r c')
  from add_event.IH add_event.hyps(2,3) show ?case
    by (rule consistent_add_event)
next
  case (add_reminder issued failed c event_id dtm ty r c')
  from add_reminder.IH add_reminder.hyps(2) show ?case
    by (rule consistent_add_reminder)
next
  case (update_event issued failed c event_id ttl descr dt s e r c')
  from update_event.IH update_event.hyps(2) show ?case
    by (rule consistent_update_event)
next
  case (delete_event issued failed c event_id r c')
  from delete_event.IH delete_event.hyps(2) show ?case
    by (rule consistent_delete_event)
next
  case (delete_reminder issued failed c event_id reminder_index r c')
  from delete_reminder.IH delete_reminder.hyps(2) show ?case
    by (rule consistent_delete_reminder)
qed

section \<open>Slots and the registry of events\<close>

lemma registered_or_failed_iff:
  "registered_or_failed failed c \<longleftrightarrow>
     (\<forall>dt i. (dt, i) \<in> bookings (days c) \<longrightarrow> events c i \<noteq> None \<or> i \<in> failed)"
proof
  assume r: "registered_or_failed failed c"
  show "\<forall>dt i. (dt, i) \<in> bookings (days c) \<longrightarrow> events c i \<noteq> None \<or> i \<in> failed"
  proof (intro allI impI)
    fix dt i assume "(dt, i) \<in> bookings (days c)"
    then obtain d slot where d: "(dt, d) \<in> set (days c)" and s: "(slot, Some i) \<in> set (slots d)"
      by (auto simp: bookings_def in_slot_values_def)
    from r d have "list_all (\<lambda>(slot, v). case v of None \<Rightarrow> True
                              | Some i \<Rightarrow> events c i \<noteq> None \<or> i \<in> failed) (slots d)"
      unfolding registered_or_failed_def list_all_iff by blast
    with s show "events c i \<noteq> None \<or> i \<in> failed"
      unfolding list_all_iff by fastforce
  qed
next
  assume b: "\<forall>dt i. (dt, i) \<in> bookings (days c) \<longrightarrow> events c i \<noteq> None \<or> i \<in> failed"
  have "events c i \<noteq> None \<or> i \<in> failed"
    if "(dt, d) \<in> set (days c)" and "(slot, Some i) \<in> set (slots d)" for dt d slot i
  proof -
    from that(2) have "in_slot_values i d"
      by (force simp: in_slot_values_def)
    with that(1) have "(dt, i) \<in> bookings (days c)"
      unfolding bookings_def by blast
    with b show ?thesis by blast
  qed
  note entry = this
  show "registered_or_failed failed c"
    unfolding registered_or_failed_def list_all_iff split_beta
  proof (intro ballI)
    fix x y assume x: "x \<in> set (days c)" and y: "y \<in> set (slots (snd x))"
    obtain dt d where xd: "x = (dt, d)" by (cases x)
    obtain slot v where yv: "y = (slot, v)" by (cases y)
    show "case snd y of None \<Rightarrow> True | Some i \<Rightarrow> events c i \<noteq> None \<or> i \<in> failed"
    proof (cases v)
      case None
      then show ?thesis by (simp add: yv)
    next
      case (Some i)
      with x y have "events c i \<noteq> None \<or> i \<in> failed"
        using entry [of dt d slot i] by (simp add: xd yv)
      with Some show ?thesis by (simp add: yv)
    qed
  qed
qed

lemma slots_registered_iff: "slots_registered c \<longleftrightarrow> registered_or_failed {} c"
  by (simp add: slots_registered_def registered_or_failed_def cong: option.case_cong)

lemma consistent_registered_or_failed:
  assumes "consistent issued failed c"
  shows "registered_or_failed failed c"
  unfolding registered_or_failed_iff
proof (intro allI impI)
  fix dt i assume "(dt, i) \<in> bookings (days c)"
  from consistentD(6) [OF assms this] show "events c i \<noteq> None \<or> i \<in> failed"
    by auto
qed

text \<open>
  C1, as amended. In every calendar reached from the empty one by the public operations
  \<^verbatim>\<open>add_event\<close>, \<^verbatim>\<open>add_reminder\<close>, \<^verbatim>\<open>update_event\<close>, \<^verbatim>\<open>delete_event\<close> and
  \<^verbatim>\<open>delete_reminder\<close>, whatever their arguments and outcomes, every event id held by a slot of
  a day is a key of the events or is the id of an \<^verbatim>\<open>add_event\<close> that failed with
  \<^verbatim>\<open>SlotNotAvailable\<close>; as long as no \<^verbatim>\<open>add_event\<close> has failed so, every id held by a slot is
  a key of the events.
\<close>

theorem C1_slots_registered_or_failed:
  assumes "reachable issued failed c"
  shows "registered_or_failed failed c \<and> (failed = {} \<longrightarrow> slots_registered c)"
proof -
  from assms have "consistent issued failed c"
    by (rule reachable_consistent)
  then have "registered_or_failed failed c"
    by (rule consistent_registered_or_failed)
  then show ?thesis
    by (auto simp: slots_registered_iff)
qed

lemma reachable_calendar_one: "reachable {''id1''} {} calendar_one"
  using reachable.add_event [OF reachable.initial _ calendar_one_add] by simp

lemma calendar_failed_add:
  "Calendar_add_event ''T2'' ''D2'' (2025, 1, 1) (time 9 45) (time 10 15) (2025, 1, 1) ''id2''
     calendar_one = (Inl SlotNotAvailable, calendar_failed)"
proof -
  define d1 where "d1 = (Day (2025, 1, 1))\<lparr>slots := map (book ''id1'' (time 10 0) (time 10 30))
                                             (slots (Day (2025, 1, 1)))\<rparr>"
  have day1: "map_of (days calendar_one) (2025, 1, 1) = Some d1"
    by (simp add: calendar_one_eq d1_def)
  have ens: "map_of (ensure_day (2025, 1, 1) (days calendar_one)) (2025, 1, 1) = Some d1"
    by (simp only: ensure_day_id [OF day1] day1)
  have t: "\<not> (2025, 1, 1) < ((2025, 1, 1) :: date)"
    by simp
  have "(slot_key 40, None) \<in> set (slots (Day (2025, 1, 1)))"
    by (simp add: Day_slots del: upt_rec_numeral)
  moreover have "slot_key 40 = time 10 0"
    by (simp add: slot_key_def)
  ultimately have "(time 10 0, None) \<in> set (slots (Day (2025, 1, 1)))"
    by simp
  then have "book ''id1'' (time 10 0) (time 10 30) (time 10 0, None) \<in> set (slots d1)"
    unfolding d1_def by force
  then have held: "(time 10 0, Some ''id1'') \<in> set (slots d1)"
    by (simp add: book_def in_range_def time_def)
  have occ: "occupied_in (time 9 45) (time 10 15) (time 10 0, Some ''id1'')"
    by (simp add: occupied_in_def in_range_def time_def)
  have "fst (Day_add_event ''id2'' (time 9 45) (time 10 15) d1) = Inl SlotNotAvailable"
    using held occ by (rule Day_add_event_occupied)
  then have "fst (Calendar_add_event ''T2'' ''D2'' (2025, 1, 1) (time 9 45) (time 10 15)
      (2025, 1, 1) ''id2'' calendar_one) = Inl SlotNotAvailable"
    unfolding Calendar_add_event_eq [OF t ens] by simp
  then show ?thesis
    unfolding calendar_failed_def by (metis prod.collapse)
qed

lemma reachable_calendar_failed: "reachable {''id2'', ''id1''} {''id2''} calendar_failed"
  using reachable.add_event [OF reachable_calendar_one _ calendar_failed_add] by simp

theorem C1_slots_registered_or_failed_witness:
  "registered_or_failed {''id2''} calendar_failed \<and> slots_registered calendar_one"
  using C1_slots_registered_or_failed [OF reachable_calendar_failed]
    C1_slots_registered_or_failed [OF reachable_calendar_one]
  by simp

subsection \<open>A reachable calendar with an unregistered id in a slot\<close>

lemma slot_key_mono: "k < n \<Longrightarrow> slot_key k < slot_key n"
proof -
  assume "k < n"
  moreover have "k = 4 * (k div 4) + k mod 4" and "n = 4 * (n div 4) + n mod 4"
    by simp_all
  moreover have "k mod 4 < 4" and "n mod 4 < 4"
    by simp_all
  ultimately have "k div 4 < n div 4 \<or> (k div 4 = n div 4 \<and> k mod 4 < n mod 4)"
    by linarith
  then show ?thesis
    by (auto simp: slot_key_def time_def)
qed

lemma add_event_slots_first_free:
  assumes "list_all (\<lambda>y. \<not> in_range s e (fst y)) pre" and "in_range s e k"
  shows "(k, Some i) \<in> set (snd (add_event_slots i s e (pre @ (k, None) # post)))"
proof -
  from assms(1) have "list_all (\<lambda>x. \<not> occupied_in s e x) pre"
    by (simp add: list_all_iff occupied_in_def)
  then have "snd (add_event_slots i s e (pre @ (k, None) # post))
      = map (book i s e) pre @ snd (add_event_slots i s e ((k, None) # post))"
    by (simp add: add_event_slots_prefix)
  moreover have "snd (add_event_slots i s e ((k, None) # post))
      = (k, Some i) # snd (add_event_slots i s e post)"
    using assms(2) by (simp add: in_range_def split: prod.splits)
  ultimately show ?thesis
    by simp
qed

lemma calendar_failed_eq:
  "calendar_failed =
     calendar_one\<lparr>days :=
       [((2025, 1, 1),
         snd (Day_add_event ''id2'' (time 9 45) (time 10 15)
                ((Day (2025, 1, 1))\<lparr>slots := map (book ''id1'' (time 10 0) (time 10 30))
                                              (slots (Day (2025, 1, 1)))\<rparr>)))]\<rparr>"
proof -
  define d1 where "d1 = (Day (2025, 1, 1))\<lparr>slots := map (book ''id1'' (time 10 0) (time 10 30))
                                             (slots (Day (2025, 1, 1)))\<rparr>"
  have day1: "map_of (days calendar_one) (2025, 1, 1) = Some d1"
    by (simp add: calendar_one_eq d1_def)
  have ens: "map_of (ensure_day (2025, 1, 1) (days calendar_one)) (2025, 1, 1) = Some d1"
    by (simp only: ensure_day_id [OF day1] day1)
  have t: "\<not> (2025, 1, 1) < ((2025, 1, 1) :: date)"
    by simp
  have "fst (Calendar_add_event ''T2'' ''D2'' (2025, 1, 1) (time 9 45) (time 10 15)
      (2025, 1, 1) ''id2'' calendar_one) = Inl SlotNotAvailable"
    by (simp only: calendar_failed_add fst_conv)
  then have f: "fst (Day_add_event ''id2'' (time 9 45) (time 10 15) d1) = Inl SlotNotAvailable"
    unfolding Calendar_add_event_eq [OF t ens] by (simp split: sum.splits)
  have "days calendar_one = [((2025, 1, 1), d1)]"
    by (simp add: calendar_one_eq d1_def)
  then show ?thesis
    unfolding calendar_failed_def Calendar_add_event_eq [OF t ens] d1_def [symmetric]
    by (simp add: f ensure_day_def)
qed

lemma calendar_failed_slot:
  "((2025, 1, 1), ''id2'') \<in> bookings (days calendar_failed)"
proof -
  define f where "f = (\<lambda>k. book ''id1'' (time 10 0) (time 10 30) (slot_key k, None :: string option))"
  have split: "[0..<95] = [0..<39] @ 39 # [40..<95]"
    using upt_add_eq_append [of 0 39 56] upt_conv_Cons [of 39 95]
    by (simp del: upt_rec_numeral)
  have key: "slot_key 39 = time 9 45"
    by (simp add: slot_key_def)
  have f39: "f 39 = (time 9 45, None)"
    by (simp add: f_def key book_def in_range_def time_def)
  have "map (book ''id1'' (time 10 0) (time 10 30)) (slots (Day (2025, 1, 1))) = map f [0..<95]"
    by (simp add: Day_slots f_def del: upt_rec_numeral)
  also have "\<dots> = map f [0..<39] @ (time 9 45, None) # map f [40..<95]"
    by (simp only: split map_append list.map f39)
  finally have sl: "map (book ''id1'' (time 10 0) (time 10 30)) (slots (Day (2025, 1, 1)))
      = map f [0..<39] @ (time 9 45, None) # map f [40..<95]" .
  have pre: "list_all (\<lambda>y. \<not> in_range (time 9 45) (time 10 15) (fst y)) (map f [0..<39])"
  proof -
    have "\<not> in_range (time 9 45) (time 10 15) (fst (f k))" if "k < 39" for k
    proof -
      from that have "slot_key k < slot_key 39"
        by (rule slot_key_mono)
      then have "\<not> time 9 45 \<le> slot_key k"
        by (simp only: key not_le)
      then show ?thesis
        by (simp add: f_def book_fst in_range_def)
    qed
    then show ?thesis
      by (simp add: list_all_iff del: upt_rec_numeral)
  qed
  have rng: "in_range (time 9 45) (time 10 15) (time 9 45)"
    by (simp add: in_range_def time_def)
  have "(time 9 45, Some ''id2'') \<in> set (snd (add_event_slots ''id2'' (time 9 45) (time 10 15)
      (map f [0..<39] @ (time 9 45, None) # map f [40..<95])))"
    using pre rng by (rule add_event_slots_first_free)
  then have "''id2'' \<in> slot_ids (snd (add_event_slots ''id2'' (time 9 45) (time 10 15)
      (map (book ''id1'' (time 10 0) (time 10 30)) (slots (Day (2025, 1, 1))))))"
    unfolding sl by (rule slot_ids_entry)
  then have "in_slot_values ''id2''
      (snd (Day_add_event ''id2'' (time 9 45) (time 10 15)
              ((Day (2025, 1, 1))\<lparr>slots := map (book ''id1'' (time 10 0) (time 10 30))
                                            (slots (Day (2025, 1, 1)))\<rparr>)))"
    by (simp add: in_slot_values_iff Day_add_event_slots)
  then show ?thesis
    by (simp add: calendar_failed_eq bookings_Cons)
qed

text \<open>
  The calendar reached by booking ''id1'' from 10:00 to 10:30 and then asking for 09:45 to
  10:15 on the same day: the second \<^verbatim>\<open>add_event\<close> fails with \<^verbatim>\<open>SlotNotAvailable\<close> at 10:00,
  after \<^verbatim>\<open>Day.add_event\<close> has written ''id2'' into the slot of 09:45, and ''id2'' is never
  registered in the events.
\<close>

theorem C1_slots_registered_counterexample:
  "reachable {''id2'', ''id1''} {''id2''} calendar_failed \<and> \<not> slots_registered calendar_failed"
proof -
  have "events calendar_failed ''id2'' = None"
    by (simp add: calendar_failed_eq calendar_one_eq)
  with calendar_failed_slot have "\<not> registered_or_failed {} calendar_failed"
    unfolding registered_or_failed_iff by blast
  with reachable_calendar_failed show ?thesis
    by (simp add: slots_registered_iff)
qed

end
